theory Spec2Isabelle
  imports Main "HOL-Library.AList"
begin

unbundle bit_operations_syntax

section \<open>Rows of the asset model\<close>

text \<open>
  The views read a row through \<open>QModelIndex::data(role)\<close>. A row is modelled by what
  the code reads from it: whether the index is valid, the value of
  \<open>data(TypeCheckRole).toUInt(&ok)\<close> as the \<open>EAssetModelRowType\<close> the code compares
  it with, with the \<open>ok\<close> flag of the conversion, the data of the sort role, and the
  value of \<open>data(InternalPointerRole).value<intptr_t>()\<close>, which is a \<open>CAsset*\<close>
  (0 is the null pointer).

  \<open>EAssetModelRowType\<close> is declared in the asset model's header, which is not among the
  sources: the code names two of its enumerators, and \<open>eAssetModelRow_other\<close> stands for
  any other number the role may hold.
  \<open>CRY_ASSERT\<close> is the engine's debugging assertion: a failed one is reported and
  execution goes on (release builds compile it out), so it is no branch of the model;
  each one is named where it stands.
\<close>

type_synonym CAssetPtr = int

datatype EAssetModelRowType =
    eAssetModelRow_Asset
  | eAssetModelRow_Folder
  | eAssetModelRow_other nat

record 'v QModelIndex =
  isValid :: bool
  typeCheckRole :: EAssetModelRowType
  typeCheckOk :: bool
  sortRoleData :: 'v
  internalPointerRole :: CAssetPtr

definition IsAsset :: "'v QModelIndex \<Rightarrow> bool" where
  "IsAsset index \<longleftrightarrow> typeCheckRole index = eAssetModelRow_Asset \<and> typeCheckOk index"

definition IsFolder :: "'v QModelIndex \<Rightarrow> bool" where
  "IsFolder index \<longleftrightarrow> typeCheckRole index = eAssetModelRow_Folder \<and> typeCheckOk index"

definition ToAsset :: "'v QModelIndex \<Rightarrow> CAssetPtr" where
  "ToAsset index = internalPointerRole index"

subsection \<open>SortFilterProxyModel::lessThan\<close>

text \<open>
  \<open>QAttributeFilterProxyModel::lessThan\<close>, the comparison of the base class, is not
  among the sources and is the parameter \<open>baseLessThan\<close>. The variants of the sort
  role are compared with \<open>==\<close>.
\<close>

definition SortFilterProxyModel_lessThan ::
  "('v QModelIndex \<Rightarrow> 'v QModelIndex \<Rightarrow> bool) \<Rightarrow> 'v QModelIndex \<Rightarrow> 'v QModelIndex \<Rightarrow> bool" where
  "SortFilterProxyModel_lessThan baseLessThan left right =
     (let leftType = typeCheckRole left;
          rightType = typeCheckRole right
      in if leftType = rightType then
           (if sortRoleData left = sortRoleData right
            then internalPointerRole left < internalPointerRole right
            else baseLessThan left right)
         else leftType = eAssetModelRow_Folder)"

text \<open>
  A list of rows is in ascending order for a comparison \<open>lt\<close> when no later row is
  less than an earlier one.
\<close>

definition ascending :: "('r \<Rightarrow> 'r \<Rightarrow> bool) \<Rightarrow> 'r list \<Rightarrow> bool" where
  "ascending lt rows = sorted_wrt (\<lambda>a b. \<not> lt b a) rows"

section \<open>Dialogs and what the functions do to their surroundings\<close>

text \<open>
  The asset manager, the dialogs and the user are outside the code at hand. Their
  answers are the fields of \<open>ui\<close>: what \<open>HasAnyReverseDependencies\<close> returns for a list
  of assets, what \<open>Execute()\<close> of the reverse-dependencies dialog returns (true when the
  user goes on), the button that \<open>CQuestionDialog::SQuestion\<close> returns, and what the base
  class's \<open>edit\<close> returns. What a function does to its surroundings is the list of
  \<open>effect\<close>s it returns, in the order of the calls: a dialog shown (with its window
  title), \<open>DeleteAssetsWithFiles\<close>, \<open>pEvent->accept()\<close>, the base class's \<open>edit\<close>.
\<close>

datatype StandardButton = Yes | No | Cancel

record ui =
  HasAnyReverseDependencies :: "CAssetPtr list \<Rightarrow> bool"
  dialogExecute :: bool
  SQuestion :: StandardButton
  baseEdit :: bool

datatype effect =
    ReverseDependenciesDialog string "CAssetPtr list"
  | QuestionDialog string
  | DeleteAssetsWithFiles "CAssetPtr list"
  | EventAccept
  | BaseEdit

definition UserConfirmsRenaming :: "ui \<Rightarrow> CAssetPtr \<Rightarrow> bool \<times> effect list" where
  "UserConfirmsRenaming u asset =
     (let title = ''Rename Asset'' in
      if HasAnyReverseDependencies u [asset] then
        (if \<not> dialogExecute u
         then (False, [ReverseDependenciesDialog title [asset]])
         else (True, [ReverseDependenciesDialog title [asset]]))
      else if SQuestion u \<noteq> Yes
      then (False, [QuestionDialog title])
      else (True, [QuestionDialog title]))"

text \<open>
  The two \<open>edit\<close> overrides. \<open>editTriggers\<close> and \<open>trigger\<close> are the flag words of
  \<open>QAbstractItemView::EditTriggers\<close>; \<open>pEvent\<close> says whether the event pointer is
  non-null. The base class's \<open>edit\<close>, which may open the editor, is the effect
  \<open>BaseEdit\<close> and returns \<open>baseEdit u\<close>.
\<close>

definition QAssetDetailsView_edit ::
  "ui \<Rightarrow> int \<Rightarrow> 'v QModelIndex \<Rightarrow> int \<Rightarrow> bool \<Rightarrow> bool \<times> effect list" where
  "QAssetDetailsView_edit u editTriggers index trigger pEvent =
     (if (editTriggers AND trigger) \<noteq> 0 \<and> isValid index \<and> IsAsset index then
        (let pAsset = ToAsset index in
         if pAsset \<noteq> 0 then
           (case UserConfirmsRenaming u pAsset of
              (confirmed, shown) \<Rightarrow>
                if \<not> confirmed
                then (True, shown @ (if pEvent then [EventAccept] else []))
                else (baseEdit u, shown @ [BaseEdit]))
         else (baseEdit u, [BaseEdit]))
      else (baseEdit u, [BaseEdit]))"

definition CThumbnailsInternalView_edit ::
  "ui \<Rightarrow> int \<Rightarrow> 'v QModelIndex \<Rightarrow> int \<Rightarrow> bool \<Rightarrow> bool \<times> effect list" where
  "CThumbnailsInternalView_edit u editTriggers index trigger pEvent =
     (if (editTriggers AND trigger) \<noteq> 0 \<and> isValid index \<and> IsAsset index then
        (let pAsset = ToAsset index in
         if pAsset \<noteq> 0 then
           (case UserConfirmsRenaming u pAsset of
              (confirmed, shown) \<Rightarrow>
                if \<not> confirmed
                then (True, shown @ (if pEvent then [EventAccept] else []))
                else (baseEdit u, shown @ [BaseEdit]))
         else (baseEdit u, [BaseEdit]))
      else (baseEdit u, [BaseEdit]))"

text \<open>
  \<open>CAssetBrowser::OnDelete(assets)\<close>. Its \<open>CRY_ASSERT\<close> says that no pointer of the
  list is null.
\<close>

definition OnDelete :: "ui \<Rightarrow> CAssetPtr list \<Rightarrow> effect list" where
  "OnDelete u assets =
     (let assetsToDelete = assets;
          title = ''Delete Assets''
      in if HasAnyReverseDependencies u assetsToDelete then
           (if \<not> dialogExecute u
            then [ReverseDependenciesDialog title assets]
            else [ReverseDependenciesDialog title assets, DeleteAssetsWithFiles assetsToDelete])
         else if SQuestion u \<noteq> Yes
         then [QuestionDialog title]
         else [QuestionDialog title, DeleteAssetsWithFiles assetsToDelete])"

definition isConfirmationDialog :: "effect \<Rightarrow> bool" where
  "isConfirmationDialog e =
     (case e of ReverseDependenciesDialog t a \<Rightarrow> True | QuestionDialog t \<Rightarrow> True | _ \<Rightarrow> False)"

section \<open>Touching the visible thumbnails in batches\<close>

text \<open>
  \<open>CThumbnailsInternalView::TouchVisibleAssetsBatched\<close>. The row numbers, the row count
  and the sizes of a rectangle are C \<open>int\<close>s of 32 bits. They are modelled as the
  integers from \<open>-2^31\<close> to \<open>2^31 - 1\<close>, and every sum, difference and product of the
  code is reduced by \<open>int32\<close>, which wraps a result that leaves this range around.
  C++ leaves the overflow of an \<open>int\<close> undefined; wrapping is what the two's complement
  arithmetic of the compiled code gives.
\<close>

definition int32 :: "int \<Rightarrow> int" where
  "int32 x = (x + 2 ^ 31) mod 2 ^ 32 - 2 ^ 31"

text \<open>
  \<open>row_view\<close> is what the loop reads at a row \<open>i\<close>: whether
  \<open>model()->index(i, eAssetColumns_Thumbnail)\<close> is valid, the asset pointer stored under
  \<open>InternalPointerRole\<close>, \<open>pAsset->GetType()->HasThumbnail()\<close> and the \<open>visualRect\<close> of
  the index. The model answers \<open>rowCount()\<close> and \<open>index\<close> for every row number it is
  asked for; the view has its \<open>model()\<close> (\<open>None\<close> for the null pointer) and its
  \<open>rect().height()\<close>.
\<close>

record row_view =
  index_isValid :: bool
  row_pAsset :: CAssetPtr
  row_HasThumbnail :: bool
  visualRect_y :: int
  visualRect_width :: int
  visualRect_height :: int

record QAbstractItemModel =
  rowCount :: int
  model_index :: "int \<Rightarrow> row_view"

record CThumbnailsInternalView =
  view_model :: "QAbstractItemModel option"
  rect_height :: int

text \<open>
  A call returns the rows it visited in the order of the loop, the assets handed to
  \<open>CAssetThumbnailsLoader::TouchAsset\<close>, and the row at which the continuation it posts
  with \<open>QTimer::singleShot(0, ...)\<close> starts, if it posts one.
\<close>

record batch =
  examined :: "int list"
  touched :: "CAssetPtr list"
  scheduled :: "int option"

text \<open>The body of the loop at row \<open>i\<close>: the assets it hands to the loader.\<close>

definition touchRow :: "CThumbnailsInternalView \<Rightarrow> QAbstractItemModel \<Rightarrow> int \<Rightarrow> CAssetPtr list" where
  "touchRow v m i =
     (let index = model_index m i in
      if index_isValid index then
        (let pAsset = row_pAsset index in
         if pAsset \<noteq> 0 \<and> row_HasThumbnail index then
           (if visualRect_y index > 0 \<and> visualRect_y index < rect_height v
               \<and> int32 (visualRect_width index * visualRect_height index) > 1
            then [pAsset] else [])
         else [])
      else [])"

text \<open>
  The loop \<open>for (int i = lastBatchRow; i >= firstBatchRow; --i)\<close>, from the value \<open>i\<close>
  on; \<open>rows\<close> and \<open>assets\<close> are what it has visited and touched so far. From
  \<open>firstBatchRow = -2^31\<close> the test never fails and the loop does not return: the
  result is \<open>None\<close>.
\<close>

partial_function (option) touchRows ::
  "CThumbnailsInternalView \<Rightarrow> QAbstractItemModel \<Rightarrow> int \<Rightarrow> int \<Rightarrow> int list \<Rightarrow> CAssetPtr list
     \<Rightarrow> (int list \<times> CAssetPtr list) option" where
  "touchRows v m firstBatchRow i rows assets =
     (if i \<ge> firstBatchRow
      then touchRows v m firstBatchRow (int32 (i - 1)) (rows @ [i]) (assets @ touchRow v m i)
      else Some (rows, assets))"

declare touchRows.simps [code]

definition TouchVisibleAssetsBatched :: "CThumbnailsInternalView \<Rightarrow> int \<Rightarrow> batch option" where
  "TouchVisibleAssetsBatched v firstBatchRow =
     (case view_model v of
        None \<Rightarrow> Some \<lparr>examined = [], touched = [], scheduled = None\<rparr>
      | Some m \<Rightarrow>
          if rowCount m = 0 then Some \<lparr>examined = [], touched = [], scheduled = None\<rparr>
          else
            (let batchSize = push_bit 3 (1::int);
                 lastRow = int32 (rowCount m - 1);
                 lastBatchRow = min lastRow (int32 (firstBatchRow + batchSize))
             in case touchRows v m firstBatchRow lastBatchRow [] [] of
                  None \<Rightarrow> None
                | Some (rows, assets) \<Rightarrow>
                    Some \<lparr>examined = rows, touched = assets,
                          scheduled = (if lastBatchRow < lastRow then Some (int32 (lastBatchRow + 1))
                                       else None)\<rparr>))"

text \<open>
  The chain of calls that one \<open>TouchVisibleAssets\<close> starts. A posted continuation runs
  later, from the event loop: it returns at once when its \<open>QPointer\<close> to the view is
  null, and otherwise calls \<open>TouchVisibleAssetsBatched\<close> on the view as it is then, which
  asks the model for \<open>rowCount()\<close> again. \<open>pView k\<close> is what the pointer of the
  continuation posted by call number \<open>k\<close> (the first call has number 0) gives when that
  continuation runs: \<open>None\<close> when the view has been destroyed, and otherwise the view,
  with the model and the geometry it has by then. The result lists the calls in the
  order they run; it is \<open>None\<close> when the chain does not end.
\<close>

partial_function (option) TouchVisibleAssets_from ::
  "(nat \<Rightarrow> CThumbnailsInternalView option) \<Rightarrow> nat \<Rightarrow> CThumbnailsInternalView \<Rightarrow> int
     \<Rightarrow> batch list option" where
  "TouchVisibleAssets_from pView k v firstBatchRow =
     (case TouchVisibleAssetsBatched v firstBatchRow of
        None \<Rightarrow> None
      | Some b \<Rightarrow>
          (case scheduled b of
             None \<Rightarrow> Some [b]
           | Some next \<Rightarrow>
               (case pView k of
                  None \<Rightarrow> Some [b]
                | Some v' \<Rightarrow>
                    Option.bind (TouchVisibleAssets_from pView (Suc k) v' next)
                      (\<lambda>bs. Some (b # bs)))))"

declare TouchVisibleAssets_from.simps [code]

definition TouchVisibleAssets ::
  "(nat \<Rightarrow> CThumbnailsInternalView option) \<Rightarrow> CThumbnailsInternalView \<Rightarrow> batch list option" where
  "TouchVisibleAssets pView v = TouchVisibleAssets_from pView 0 v 0"

section \<open>The state of the browser\<close>

subsection \<open>Variants and variant maps\<close>

text \<open>
  A \<open>QVariant\<close> as far as \<open>AssetBrowser.cpp\<close> reads one: invalid, an \<open>int\<close>, a \<open>bool\<close>, a
  \<open>QVariantMap\<close>, or a value of any other type (a byte array, a string, ...), which is
  given by what its \<open>toInt()\<close> and \<open>toBool()\<close> return and by its bytes. A
  \<open>QVariantMap\<close> is a list of keys with their values, each key once.
\<close>

datatype QVariant =
    QInvalid
  | QInt int
  | QBool bool
  | QMap "(string \<times> QVariant) list"
  | QOther int bool string

type_synonym QVariantMap = "(string \<times> QVariant) list"

fun QVariant_isValid :: "QVariant \<Rightarrow> bool" where
  "QVariant_isValid QInvalid = False"
| "QVariant_isValid v = True"

fun toInt :: "QVariant \<Rightarrow> int" where
  "toInt (QInt n) = n"
| "toInt (QBool b) = (if b then 1 else 0)"
| "toInt (QOther n b bytes) = n"
| "toInt v = 0"

fun toBool :: "QVariant \<Rightarrow> bool" where
  "toBool (QInt n) = (n \<noteq> 0)"
| "toBool (QBool b) = b"
| "toBool (QOther n b bytes) = b"
| "toBool v = False"

fun typeIsMap :: "QVariant \<Rightarrow> bool" where
  "typeIsMap (QMap m) = True"
| "typeIsMap v = False"

fun toMap :: "QVariant \<Rightarrow> QVariantMap" where
  "toMap (QMap m) = m"
| "toMap v = []"

definition QVariantMap_value :: "QVariantMap \<Rightarrow> string \<Rightarrow> QVariant" where
  "QVariantMap_value state key = (case map_of state key of None \<Rightarrow> QInvalid | Some v \<Rightarrow> v)"

definition QVariantMap_insert :: "string \<Rightarrow> QVariant \<Rightarrow> QVariantMap \<Rightarrow> QVariantMap" where
  "QVariantMap_insert key v state = AList.update key v state"

subsection \<open>Members and widgets\<close>

text \<open>
  The enumerators of \<open>CAssetBrowser::ViewMode\<close> are declared in the header of the
  class, which is not among the sources. \<open>AssetBrowser.cpp\<close> gives the four buttons of \<open>m_viewModeButtons\<close> the view modes as
  ids and reads them back as \<open>button(i)\<close> for \<open>i < Max\<close>, so the four modes are
  \<open>0 .. 3\<close> and \<open>Max\<close> is 4; which mode has which number is not used below.
  A view mode is the \<open>int\<close> of the enumeration, since \<open>SetLayout\<close> casts any stored
  \<open>int\<close> to it.
\<close>

definition Details :: int where
  "Details = 0"

definition Thumbnails :: int where
  "Thumbnails = 1"

definition VSplit :: int where
  "VSplit = 2"

definition HSplit :: int where
  "HSplit = 3"

definition ViewMode_Max :: int where
  "ViewMode_Max = 4"

datatype Orientation = Horizontal | Vertical

text \<open>
  The calls made on widgets whose code is not among the sources, with their arguments;
  the state keeps them in the order they were made.
\<close>

datatype widget_call =
    CDockableEditor_SetLayout QVariantMap
  | MainViewSplitter_restoreState QVariant
  | FoldersSplitter_restoreState QVariant
  | PreviewWidget_setVisible bool
  | FilterPanel_SetState QVariantMap
  | DetailsView_SetState QVariantMap
  | ThumbnailView_SetState QVariantMap
  | FoldersView_SetState QVariantMap
  | FoldersView_ClearSelection
  | FoldersView_SelectFolders "string list"

text \<open>
  The members of \<open>CAssetBrowser\<close> that the functions below read or write, under their
  names, and after them the state of the widgets as far as these functions set or read
  it: the two navigation buttons, the visibility of the views, the main splitter's
  orientation, the checked state of the view mode buttons, the folder filter model
  (\<open>IsRecursive\<close>, what \<open>SetShowFolders\<close> and \<open>SetAcceptedFolders\<close> set), the filter panel
  (\<open>GetSearchBox()->IsEmpty()\<close>, \<open>HasActiveFilters()\<close>), the address bar, and the root
  folder of the two views (\<open>None\<close> for the null string). Navigation indices and sizes
  are C \<open>int\<close>s, modelled as \<open>int\<close>.
\<close>

record CAssetBrowser =
  m_viewMode :: int
  m_recursiveView :: bool
  m_recursiveSearch :: bool
  m_navigationIndex :: int
  m_navigationHistory :: "string list list"
  m_dontPushNavHistory :: bool
  backButtonEnabled :: bool
  forwardButtonEnabled :: bool
  thumbnailViewVisible :: bool
  detailsViewVisible :: bool
  mainViewSplitterOrientation :: Orientation
  viewModeButtonsChecked :: "bool list"
  foldersViewVisible :: bool
  folderFilterIsRecursive :: bool
  folderFilterShowFolders :: bool
  acceptedFolders :: "string list"
  searchBoxIsEmpty :: bool
  hasActiveFilters :: bool
  breadcrumbsVisible :: bool
  multipleFoldersLabelVisible :: bool
  breadcrumbsFolder :: string
  rootFolder :: "string option"
  widgetCalls :: "widget_call list"

datatype error = EmptyList | IndexOutOfRange | NegativeSize

definition and_then :: "error + 'a \<Rightarrow> ('a \<Rightarrow> error + 'b) \<Rightarrow> error + 'b" where
  "and_then r f = (case r of Inl e \<Rightarrow> Inl e | Inr x \<Rightarrow> f x)"

text \<open>
  \<open>QVector::operator[]\<close> and \<open>QList::first()\<close> assert their range and
  \<open>QVector::resize\<close> has no meaning for a negative size: outside these the model
  returns an error.
\<close>

definition QVector_at :: "'a list \<Rightarrow> int \<Rightarrow> error + 'a" where
  "QVector_at xs i = (if 0 \<le> i \<and> i < int (length xs) then Inr (xs ! nat i) else Inl IndexOutOfRange)"

definition QVector_resize :: "int \<Rightarrow> 'a list list \<Rightarrow> error + 'a list list" where
  "QVector_resize n xs =
     (if n < 0 then Inl NegativeSize
      else Inr (take (nat n) xs @ replicate (nat n - length xs) []))"

definition QList_first :: "'a list \<Rightarrow> error + 'a" where
  "QList_first xs = (case xs of [] \<Rightarrow> Inl EmptyList | x # rest \<Rightarrow> Inr x)"

subsection \<open>View mode and recursive flags\<close>

text \<open>
  \<open>SetViewMode\<close>. The \<open>default\<close> branch of the switch holds \<open>CRY_ASSERT(0)\<close> and
  changes no widget; the assignment and the loop over the buttons follow the switch
  in every branch. The second \<open>CRY_ASSERT\<close> says that there are \<open>Max\<close> buttons.
\<close>

definition SetViewMode :: "int \<Rightarrow> CAssetBrowser \<Rightarrow> CAssetBrowser" where
  "SetViewMode viewMode s =
     (if m_viewMode s \<noteq> viewMode then
        (let s1 =
           (if viewMode = Details then
              s\<lparr>thumbnailViewVisible := False, detailsViewVisible := True\<rparr>
            else if viewMode = Thumbnails then
              s\<lparr>thumbnailViewVisible := True, detailsViewVisible := False\<rparr>
            else if viewMode = HSplit \<or> viewMode = VSplit then
              s\<lparr>thumbnailViewVisible := True, detailsViewVisible := True,
                mainViewSplitterOrientation := (if viewMode = VSplit then Vertical else Horizontal)\<rparr>
            else s)
         in s1\<lparr>m_viewMode := viewMode,
               viewModeButtonsChecked := map (\<lambda>i. i = viewMode) [0..ViewMode_Max - 1]\<rparr>)
      else s)"

definition UpdateModels :: "CAssetBrowser \<Rightarrow> CAssetBrowser" where
  "UpdateModels s =
     (let searching = (\<not> searchBoxIsEmpty s \<or> hasActiveFilters s) in
      if searching \<and> m_recursiveSearch s \<and> \<not> folderFilterIsRecursive s then
        s\<lparr>folderFilterShowFolders := False, folderFilterIsRecursive := True\<rparr>
      else if \<not> searching \<and> m_recursiveView s \<noteq> folderFilterIsRecursive s then
        s\<lparr>folderFilterIsRecursive := m_recursiveView s,
          folderFilterShowFolders := (\<not> m_recursiveView s)\<rparr>
      else s)"

definition SetRecursiveView :: "bool \<Rightarrow> CAssetBrowser \<Rightarrow> CAssetBrowser" where
  "SetRecursiveView recursiveView s =
     (if m_recursiveView s \<noteq> recursiveView
      then UpdateModels (s\<lparr>m_recursiveView := recursiveView\<rparr>)
      else s)"

definition SetRecursiveSearch :: "bool \<Rightarrow> CAssetBrowser \<Rightarrow> CAssetBrowser" where
  "SetRecursiveSearch recursiveSearch s =
     (if m_recursiveSearch s \<noteq> recursiveSearch
      then UpdateModels (s\<lparr>m_recursiveSearch := recursiveSearch\<rparr>)
      else s)"

subsection \<open>Navigation\<close>

definition UpdateNavigation :: "bool \<Rightarrow> CAssetBrowser \<Rightarrow> CAssetBrowser" where
  "UpdateNavigation clearHistory s =
     (let s1 = (if clearHistory
                then s\<lparr>m_navigationHistory := [], m_navigationIndex := - 1\<rparr>
                else s);
          count = int (length (m_navigationHistory s1))
      in s1\<lparr>backButtonEnabled := (count > 0 \<and> m_navigationIndex s1 > - 1),
            forwardButtonEnabled := (count \<noteq> 0 \<and> m_navigationIndex s1 < count - 1)\<rparr>)"

text \<open>
  \<open>OnFolderSelectionChanged\<close>, in the order of its statements: the address bar and the
  root folder of the views, the accepted folders of the filter model, the push onto the
  navigation history, \<open>UpdateNavigation(false)\<close>. The path that \<open>UpdateBreadcrumbsBar\<close>
  shows is \<open>GetPrettyPath\<close> of the first folder; the model keeps that folder. The signal
  \<open>SelectionChanged()\<close> raised at the end goes to listeners that are not among the sources.
\<close>

definition showSelectedFolders :: "string list \<Rightarrow> CAssetBrowser \<Rightarrow> error + CAssetBrowser" where
  "showSelectedFolders selectedFolders s =
     (let numFolders = int (length selectedFolders) in
      if numFolders > 1 then
        Inr (s\<lparr>breadcrumbsVisible := False, multipleFoldersLabelVisible := True,
               rootFolder := None\<rparr>)
      else
        and_then (QList_first selectedFolders) (\<lambda>first.
          Inr (s\<lparr>breadcrumbsVisible := True, multipleFoldersLabelVisible := False,
                 breadcrumbsFolder := first, rootFolder := Some first\<rparr>)))"

definition pushNavHistory :: "string list \<Rightarrow> CAssetBrowser \<Rightarrow> error + CAssetBrowser" where
  "pushNavHistory selectedFolders s =
     (if \<not> m_dontPushNavHistory s then
        and_then (if m_navigationIndex s < int (length (m_navigationHistory s)) - 1
              then QVector_resize (m_navigationIndex s + 1) (m_navigationHistory s)
              else Inr (m_navigationHistory s))
          (\<lambda>history.
             Inr (s\<lparr>m_navigationHistory := history @ [selectedFolders],
                    m_navigationIndex := m_navigationIndex s + 1\<rparr>))
      else Inr s)"

definition OnFolderSelectionChanged :: "string list \<Rightarrow> CAssetBrowser \<Rightarrow> error + CAssetBrowser" where
  "OnFolderSelectionChanged selectedFolders s =
     and_then (showSelectedFolders selectedFolders s) (\<lambda>s1.
     and_then (pushNavHistory selectedFolders (s1\<lparr>acceptedFolders := selectedFolders\<rparr>)) (\<lambda>s2.
     Inr (UpdateNavigation False s2)))"

text \<open>
  \<open>ClearSelection\<close> and \<open>SelectFolders\<close> belong to the folders view, whose code is
  not among the sources. What the browser sees of them is the signal \<open>signalSelectionChanged\<close>,
  connected to \<open>OnFolderSelectionChanged\<close>: \<open>emitted\<close> lists the selections that the
  view reports while the call runs, in order (none, when the view reports nothing).
\<close>

fun signalSelectionChanged :: "string list list \<Rightarrow> CAssetBrowser \<Rightarrow> error + CAssetBrowser" where
  "signalSelectionChanged [] s = Inr s"
| "signalSelectionChanged (selectedFolders # emitted) s =
     and_then (OnFolderSelectionChanged selectedFolders s) (signalSelectionChanged emitted)"

definition foldersViewCall ::
  "widget_call \<Rightarrow> string list list \<Rightarrow> CAssetBrowser \<Rightarrow> error + CAssetBrowser" where
  "foldersViewCall c emitted s =
     signalSelectionChanged emitted (s\<lparr>widgetCalls := widgetCalls s @ [c]\<rparr>)"

definition OnNavBack :: "string list list \<Rightarrow> CAssetBrowser \<Rightarrow> error + CAssetBrowser" where
  "OnNavBack emitted s =
     (let s1 = s\<lparr>m_dontPushNavHistory := True\<rparr>;
          s2 = (if m_navigationIndex s1 \<ge> 0
                then s1\<lparr>m_navigationIndex := m_navigationIndex s1 - 1\<rparr>
                else s1)
      in and_then (if m_navigationIndex s2 = - 1
               then foldersViewCall FoldersView_ClearSelection emitted s2
               else and_then (QVector_at (m_navigationHistory s2) (m_navigationIndex s2)) (\<lambda>folders.
                      foldersViewCall (FoldersView_SelectFolders folders) emitted s2))
           (\<lambda>s3. Inr (s3\<lparr>m_dontPushNavHistory := False\<rparr>)))"

definition OnNavForward :: "string list list \<Rightarrow> CAssetBrowser \<Rightarrow> error + CAssetBrowser" where
  "OnNavForward emitted s =
     (let s1 = s\<lparr>m_dontPushNavHistory := True\<rparr>;
          s2 = s1\<lparr>m_navigationIndex := m_navigationIndex s1 + 1\<rparr>
      in and_then (and_then (QVector_at (m_navigationHistory s2) (m_navigationIndex s2)) (\<lambda>folders.
                 foldersViewCall (FoldersView_SelectFolders folders) emitted s2))
           (\<lambda>s3. Inr (s3\<lparr>m_dontPushNavHistory := False\<rparr>)))"

text \<open>
  \<open>mouseReleaseEvent\<close>: the back and forward buttons of the mouse navigate only while
  the button of the address bar is enabled. (Marking the event as accepted is left
  out.) A disabled \<open>QToolButton\<close> does not emit \<open>clicked\<close>, so a click on the forward
  button of the address bar behaves as the forward button of the mouse.
\<close>

datatype MouseButton = BackButton | ForwardButton | OtherButton

definition mouseReleaseEvent ::
  "MouseButton \<Rightarrow> string list list \<Rightarrow> CAssetBrowser \<Rightarrow> error + CAssetBrowser" where
  "mouseReleaseEvent button emitted s =
     (case button of
        BackButton \<Rightarrow> if backButtonEnabled s then OnNavBack emitted s else Inr s
      | ForwardButton \<Rightarrow> if forwardButtonEnabled s then OnNavForward emitted s else Inr s
      | OtherButton \<Rightarrow> Inr s)"

text \<open>
  The state that the constructor's initialisers and \<open>InitViews\<close> build before the three
  calls at the end of \<open>InitViews\<close>: no history, index \<open>-1\<close>, both navigation buttons
  disabled, the main splitter horizontal, no view mode button checked (\<open>m_viewMode\<close> is
  \<open>Max\<close>), and the folder filter model made by \<open>CAssetFolderFilterModel(false, true,
  this)\<close>, not recursive and showing folders. \<open>CAssetBrowser_ctor\<close> adds the three
  calls, \<open>selectedFolders\<close> being the folders the folders view has selected.
\<close>

definition CAssetBrowser_init :: CAssetBrowser where
  "CAssetBrowser_init =
     \<lparr>m_viewMode = ViewMode_Max,
      m_recursiveView = False,
      m_recursiveSearch = True,
      m_navigationIndex = - 1,
      m_navigationHistory = [],
      m_dontPushNavHistory = False,
      backButtonEnabled = False,
      forwardButtonEnabled = False,
      thumbnailViewVisible = True,
      detailsViewVisible = True,
      mainViewSplitterOrientation = Horizontal,
      viewModeButtonsChecked = [False, False, False, False],
      foldersViewVisible = True,
      folderFilterIsRecursive = False,
      folderFilterShowFolders = True,
      acceptedFolders = [],
      searchBoxIsEmpty = True,
      hasActiveFilters = False,
      breadcrumbsVisible = True,
      multipleFoldersLabelVisible = False,
      breadcrumbsFolder = [],
      rootFolder = None,
      widgetCalls = []\<rparr>"

definition CAssetBrowser_ctor :: "string list \<Rightarrow> error + CAssetBrowser" where
  "CAssetBrowser_ctor selectedFolders =
     OnFolderSelectionChanged selectedFolders
       (SetViewMode Thumbnails (UpdateNavigation False CAssetBrowser_init))"

subsection \<open>Saving and restoring the layout\<close>

text \<open>
  What \<open>GetLayout\<close> reads from code that is not among the sources: the map of
  \<open>CDockableEditor::GetLayout()\<close>, the variants made of
  \<open>saveState().toBase64()\<close> of the two splitters, whether the preview widget is visible,
  and the states of the filter panel and of the three views.
  \<open>ASSET_BROWSER_USE_PREVIEW_WIDGET\<close> is set in the header; it is the parameter
  \<open>usePreviewWidget\<close> of both functions.
\<close>

record widget_states =
  baseLayout :: QVariantMap
  mainViewSplitterSaved :: QVariant
  foldersSplitterSaved :: QVariant
  previewWidgetVisible :: bool
  filterPanelState :: QVariantMap
  detailsViewState :: QVariantMap
  thumbnailViewState :: QVariantMap
  foldersViewState :: QVariantMap

definition GetLayout :: "bool \<Rightarrow> widget_states \<Rightarrow> CAssetBrowser \<Rightarrow> QVariantMap" where
  "GetLayout usePreviewWidget w s =
     (let state = baseLayout w;
          state = QVariantMap_insert ''mainViewSplitter'' (mainViewSplitterSaved w) state;
          state = QVariantMap_insert ''foldersSplitter'' (foldersSplitterSaved w) state;
          state = QVariantMap_insert ''viewMode'' (QInt (m_viewMode s)) state;
          state = QVariantMap_insert ''recursiveView'' (QBool (m_recursiveView s)) state;
          state = QVariantMap_insert ''recursiveSearch'' (QBool (m_recursiveSearch s)) state;
          state = QVariantMap_insert ''showFolders'' (QBool (foldersViewVisible s)) state;
          state = (if usePreviewWidget
                   then QVariantMap_insert ''showPreview'' (QBool (previewWidgetVisible w)) state
                   else state);
          state = QVariantMap_insert ''filters'' (QMap (filterPanelState w)) state;
          state = QVariantMap_insert ''detailsView'' (QMap (detailsViewState w)) state;
          state = QVariantMap_insert ''thumbnailView'' (QMap (thumbnailViewState w)) state;
          state = QVariantMap_insert ''foldersView'' (QMap (foldersViewState w)) state
      in state)"

text \<open>
  \<open>SetLayout\<close> tests each variant it takes from the map before it uses it:
  \<open>whenValid\<close> is \<open>if (v.isValid())\<close>, \<open>whenValidMap\<close> is
  \<open>if (v.isValid() && v.type() == QVariant::Map)\<close>. A call on a widget whose code
  is not among the sources is added to \<open>widgetCalls\<close>; \<open>restoreState\<close> is recorded with the variant whose
  bytes it decodes.

  \<open>m_filterPanel->SetState\<close> changes the filter panel: \<open>after\<close> says what its search
  box and filters are afterwards and whether the panel raised \<open>signalOnFiltered\<close>,
  which is connected to \<open>UpdateModels\<close>, during the call.
\<close>

record filter_panel_after =
  searchBoxIsEmptyAfter :: bool
  hasActiveFiltersAfter :: bool
  signalOnFiltered :: bool

definition widgetCall :: "widget_call \<Rightarrow> CAssetBrowser \<Rightarrow> CAssetBrowser" where
  "widgetCall c s = s\<lparr>widgetCalls := widgetCalls s @ [c]\<rparr>"

definition whenValid :: "QVariant \<Rightarrow> (CAssetBrowser \<Rightarrow> CAssetBrowser) \<Rightarrow> CAssetBrowser \<Rightarrow> CAssetBrowser" where
  "whenValid v f s = (if QVariant_isValid v then f s else s)"

definition whenValidMap :: "QVariant \<Rightarrow> (CAssetBrowser \<Rightarrow> CAssetBrowser) \<Rightarrow> CAssetBrowser \<Rightarrow> CAssetBrowser" where
  "whenValidMap v f s = (if QVariant_isValid v \<and> typeIsMap v then f s else s)"

definition FilterPanel_SetState_on ::
  "filter_panel_after \<Rightarrow> QVariantMap \<Rightarrow> CAssetBrowser \<Rightarrow> CAssetBrowser" where
  "FilterPanel_SetState_on after filtersState s =
     (let s1 = widgetCall (FilterPanel_SetState filtersState) s;
          s2 = s1\<lparr>searchBoxIsEmpty := searchBoxIsEmptyAfter after,
                 hasActiveFilters := hasActiveFiltersAfter after\<rparr>
      in if signalOnFiltered after then UpdateModels s2 else s2)"

definition SetLayout ::
  "bool \<Rightarrow> filter_panel_after \<Rightarrow> QVariantMap \<Rightarrow> CAssetBrowser \<Rightarrow> CAssetBrowser" where
  "SetLayout usePreviewWidget after state s =
     (let s = widgetCall (CDockableEditor_SetLayout state) s;
          mainViewSplitter = QVariantMap_value state ''mainViewSplitter'';
          s = whenValid mainViewSplitter
                (widgetCall (MainViewSplitter_restoreState mainViewSplitter)) s;
          foldersSplitter = QVariantMap_value state ''foldersSplitter'';
          s = whenValid foldersSplitter
                (widgetCall (FoldersSplitter_restoreState foldersSplitter)) s;
          viewModeVar = QVariantMap_value state ''viewMode'';
          s = whenValid viewModeVar (SetViewMode (toInt viewModeVar)) s;
          recursiveViewVar = QVariantMap_value state ''recursiveView'';
          s = whenValid recursiveViewVar (SetRecursiveView (toBool recursiveViewVar)) s;
          recursiveSearchVar = QVariantMap_value state ''recursiveSearch'';
          s = whenValid recursiveSearchVar (SetRecursiveSearch (toBool recursiveSearchVar)) s;
          showFoldersVar = QVariantMap_value state ''showFolders'';
          s = whenValid showFoldersVar
                (\<lambda>s. s\<lparr>foldersViewVisible := toBool showFoldersVar\<rparr>) s;
          showPreviewVar = QVariantMap_value state ''showPreview'';
          s = (if usePreviewWidget
               then whenValid showPreviewVar
                      (widgetCall (PreviewWidget_setVisible (toBool showPreviewVar))) s
               else s);
          filtersStateVar = QVariantMap_value state ''filters'';
          s = whenValidMap filtersStateVar
                (FilterPanel_SetState_on after (toMap filtersStateVar)) s;
          detailsViewVar = QVariantMap_value state ''detailsView'';
          s = whenValidMap detailsViewVar
                (widgetCall (DetailsView_SetState (toMap detailsViewVar))) s;
          thumbnailViewVar = QVariantMap_value state ''thumbnailView'';
          s = whenValidMap thumbnailViewVar
                (widgetCall (ThumbnailView_SetState (toMap thumbnailViewVar))) s;
          foldersViewVar = QVariantMap_value state ''foldersView'';
          s = whenValidMap foldersViewVar
                (widgetCall (FoldersView_SetState (toMap foldersViewVar))) s
      in UpdateNavigation True s)"

subsection \<open>What happens to a browser\<close>

text \<open>
  The calls that reach a browser after its construction: the folders view reports a
  selection (\<open>signalSelectionChanged\<close>, outside \<open>OnNavBack\<close> and \<open>OnNavForward\<close>);
  \<open>OnNavBack\<close> is called; a mouse button is released over the browser (the forward
  button calls \<open>OnNavForward\<close>, only while the forward button of the address bar is
  enabled); the user edits the search box or the filters; the filter panel raises
  \<open>signalOnFiltered\<close>; \<open>SetViewMode\<close>, \<open>SetRecursiveView\<close>, \<open>SetRecursiveSearch\<close> or
  \<open>SetLayout\<close> is called. \<open>browser_run\<close> applies a list of them in order and stops at
  the first error.
\<close>

datatype browser_event =
    FolderSelectionChanged "string list"
  | NavBack "string list list"
  | MouseRelease MouseButton "string list list"
  | FilterPanelEdited bool bool
  | OnFiltered
  | CallSetViewMode int
  | CallSetRecursiveView bool
  | CallSetRecursiveSearch bool
  | CallSetLayout bool filter_panel_after QVariantMap

fun browser_step :: "CAssetBrowser \<Rightarrow> browser_event \<Rightarrow> error + CAssetBrowser" where
  "browser_step s (FolderSelectionChanged selectedFolders) = OnFolderSelectionChanged selectedFolders s"
| "browser_step s (NavBack emitted) = OnNavBack emitted s"
| "browser_step s (MouseRelease button emitted) = mouseReleaseEvent button emitted s"
| "browser_step s (FilterPanelEdited isEmpty active) =
     Inr (s\<lparr>searchBoxIsEmpty := isEmpty, hasActiveFilters := active\<rparr>)"
| "browser_step s OnFiltered = Inr (UpdateModels s)"
| "browser_step s (CallSetViewMode viewMode) = Inr (SetViewMode viewMode s)"
| "browser_step s (CallSetRecursiveView recursiveView) = Inr (SetRecursiveView recursiveView s)"
| "browser_step s (CallSetRecursiveSearch recursiveSearch) = Inr (SetRecursiveSearch recursiveSearch s)"
| "browser_step s (CallSetLayout usePreviewWidget after state) =
     Inr (SetLayout usePreviewWidget after state s)"

fun browser_run :: "CAssetBrowser \<Rightarrow> browser_event list \<Rightarrow> error + CAssetBrowser" where
  "browser_run s [] = Inr s"
| "browser_run s (e # events) = and_then (browser_step s e) (\<lambda>s1. browser_run s1 events)"

text \<open>
  The code takes \<open>selectedFolders.first()\<close> of a reported selection of fewer than two
  folders, and \<open>BeginCreateAsset\<close> takes \<open>front()\<close> of the view's selection before it
  looks at its size: the code relies on a selection that names at least one folder.
  \<open>selections_named\<close> says so of the selections an event carries.

  \<open>OnNavBack\<close> and \<open>OnNavForward\<close> do not call \<open>UpdateNavigation\<close> themselves: the
  buttons follow the index through the selection that the folders view reports during
  \<open>SelectFolders\<close>, for which they set \<open>m_dontPushNavHistory\<close> around the call.
  \<open>forward_reported\<close> says that the view reports a selection during the call that a
  release of the forward button makes.
\<close>

fun selections_named :: "browser_event \<Rightarrow> bool" where
  "selections_named (FolderSelectionChanged selectedFolders) = (selectedFolders \<noteq> [])"
| "selections_named (NavBack emitted) = ([] \<notin> set emitted)"
| "selections_named (MouseRelease button emitted) = ([] \<notin> set emitted)"
| "selections_named e = True"

fun forward_reported :: "browser_event \<Rightarrow> bool" where
  "forward_reported (MouseRelease ForwardButton emitted) = (emitted \<noteq> [])"
| "forward_reported e = True"

section \<open>Importing files\<close>

text \<open>
  \<open>CAssetBrowser::OnImport\<close>. What it reads from outside: the number of registered
  importers, the project property \<open>RecentImportPath\<close>, the files the user picks in the
  system file dialog (none when the dialog is cancelled), the drop handler's
  \<open>CanImportAny\<close>, the folders selected in the folders view, and
  \<open>PathUtil::GetPathWithoutFilename\<close>. What it does is the list of its calls:
  the modal warning of \<open>CQuestionDialog::SWarning\<close> (with its title), the file dialog
  (with the initial directory, when one is set; its extension filters, built by
  \<open>GetExtensionFilter\<close>, are left out), \<open>SetProjectProperty\<close>,
  \<open>ThreadingUtils::AsyncFinalize\<close> with the task it is to run in the background and the
  step it is to run afterwards, and \<open>CryWarning\<close> with its message.
\<close>

record import_env =
  assetImporters :: nat
  recentImportPath :: string
  chosenFiles :: "string list"
  CanImportAny :: "string list \<Rightarrow> bool"
  viewSelectedFolders :: "string list"
  GetPathWithoutFilename :: "string \<Rightarrow> string"

datatype background_task = DropHandler_Import "string list" string

datatype finalize_step = MergeAssets

datatype import_effect =
    SWarning string
  | RunImportMultipleFiles "string option"
  | SetProjectProperty string string
  | AsyncFinalize background_task finalize_step
  | CryWarning string

definition OnImport :: "import_env \<Rightarrow> import_effect list" where
  "OnImport env =
     (if assetImporters env = 0 then [SWarning ''No importers registered'']
      else
        (let initialDir = (if recentImportPath env \<noteq> [] then Some (recentImportPath env) else None);
             filePaths = chosenFiles env
         in if filePaths = [] then [RunImportMultipleFiles initialDir]
            else
              [RunImportMultipleFiles initialDir,
               SetProjectProperty ''RecentImportPath'' (GetPathWithoutFilename env (hd filePaths))] @
              (if CanImportAny env filePaths then
                 (let folderSelection = viewSelectedFolders env;
                      outputDirectory = (if length folderSelection = 1 then hd folderSelection else [])
                  in [AsyncFinalize (DropHandler_Import filePaths outputDirectory) MergeAssets])
               else if length filePaths > 1 then [CryWarning ''Cannot import files.'']
               else [CryWarning (''Cannot import file '' @ [CHR 0x27] @ hd filePaths @ [CHR 0x27] @ ''.'')])))"

section \<open>Names used in the statements\<close>

subsection \<open>The dialog a call shows, and the user's answer to it\<close>

text \<open>
  Names for what the statements below speak of: the confirmation dialog that a call
  shows for given assets, and whether the user's answer to that dialog confirms or
  declines.
\<close>

definition deleteDialog :: "ui \<Rightarrow> CAssetPtr list \<Rightarrow> effect" where
  "deleteDialog u assets =
     (if HasAnyReverseDependencies u assets
      then ReverseDependenciesDialog ''Delete Assets'' assets
      else QuestionDialog ''Delete Assets'')"

definition deleteConfirmed :: "ui \<Rightarrow> CAssetPtr list \<Rightarrow> bool" where
  "deleteConfirmed u assets =
     (if HasAnyReverseDependencies u assets then dialogExecute u else SQuestion u = Yes)"

definition renameDialog :: "ui \<Rightarrow> CAssetPtr \<Rightarrow> effect" where
  "renameDialog u asset =
     (if HasAnyReverseDependencies u [asset]
      then ReverseDependenciesDialog ''Rename Asset'' [asset]
      else QuestionDialog ''Rename Asset'')"

definition renameDeclined :: "ui \<Rightarrow> CAssetPtr \<Rightarrow> bool" where
  "renameDeclined u asset =
     (if HasAnyReverseDependencies u [asset] then \<not> dialogExecute u else SQuestion u \<noteq> Yes)"

subsection \<open>Names used in the statements about the browser\<close>

text \<open>
  \<open>searching\<close> is the test of \<open>UpdateModels\<close>: the search box is not empty or a filter
  is active. \<open>models_inv\<close> says that the folder filter model shows folders exactly when
  it is not recursive.
\<close>

definition searching :: "CAssetBrowser \<Rightarrow> bool" where
  "searching s \<longleftrightarrow> \<not> searchBoxIsEmpty s \<or> hasActiveFilters s"


text \<open>
  \<open>keeps f\<close>: the step \<open>f\<close> leaves the view mode and the two recursive flags as they
  are.
\<close>

definition keeps :: "(CAssetBrowser \<Rightarrow> CAssetBrowser) \<Rightarrow> bool" where
  "keeps f \<longleftrightarrow> (\<forall>s. m_viewMode (f s) = m_viewMode s \<and> m_recursiveView (f s) = m_recursiveView s
      \<and> m_recursiveSearch (f s) = m_recursiveSearch s)"

text \<open>
  \<open>nav_inv\<close> is the range of the navigation index. \<open>nav_sync\<close> adds what holds between
  two calls: \<open>m_dontPushNavHistory\<close> is off, and the forward button is enabled only when
  there is an entry after the index. \<open>canGoForward\<close> is the value that
  \<open>UpdateNavigation\<close> gives the forward button. \<open>keeps_nav f\<close>: the step \<open>f\<close> leaves
  the history, the index, the flag and the forward button as they are.
\<close>

definition nav_inv :: "CAssetBrowser \<Rightarrow> bool" where
  "nav_inv s \<longleftrightarrow> - 1 \<le> m_navigationIndex s
     \<and> m_navigationIndex s \<le> int (length (m_navigationHistory s)) - 1"

definition nav_sync :: "CAssetBrowser \<Rightarrow> bool" where
  "nav_sync s \<longleftrightarrow> nav_inv s \<and> \<not> m_dontPushNavHistory s
     \<and> (forwardButtonEnabled s \<longrightarrow>
          m_navigationIndex s < int (length (m_navigationHistory s)) - 1)"

definition canGoForward :: "CAssetBrowser \<Rightarrow> bool" where
  "canGoForward s \<longleftrightarrow> m_navigationHistory s \<noteq> []
     \<and> m_navigationIndex s < int (length (m_navigationHistory s)) - 1"

definition keeps_nav :: "(CAssetBrowser \<Rightarrow> CAssetBrowser) \<Rightarrow> bool" where
  "keeps_nav f \<longleftrightarrow> (\<forall>s. m_navigationHistory (f s) = m_navigationHistory s
      \<and> m_navigationIndex (f s) = m_navigationIndex s
      \<and> m_dontPushNavHistory (f s) = m_dontPushNavHistory s
      \<and> forwardButtonEnabled (f s) = forwardButtonEnabled s)"

text \<open>
  The part that \<open>OnNavBack\<close> and \<open>OnNavForward\<close> have in common, once the index is
  moved and \<open>m_dontPushNavHistory\<close> is set: clear the selection or select the folders
  of the entry, then reset the flag. \<open>backIndex\<close> is the index after \<open>OnNavBack\<close>, and
  \<open>backCall\<close> the call it makes on the folders view.
\<close>

definition selectEntry :: "string list list \<Rightarrow> CAssetBrowser \<Rightarrow> error + CAssetBrowser" where
  "selectEntry em t =
     and_then
       (if m_navigationIndex t = - 1
        then foldersViewCall FoldersView_ClearSelection em t
        else and_then (QVector_at (m_navigationHistory t) (m_navigationIndex t)) (\<lambda>folders.
               foldersViewCall (FoldersView_SelectFolders folders) em t))
       (\<lambda>s3. Inr (s3\<lparr>m_dontPushNavHistory := False\<rparr>))"

definition backIndex :: "CAssetBrowser \<Rightarrow> int" where
  "backIndex s = (if m_navigationIndex s \<ge> 0 then m_navigationIndex s - 1 else m_navigationIndex s)"

definition backCall :: "CAssetBrowser \<Rightarrow> widget_call" where
  "backCall s =
     (if backIndex s = - 1 then FoldersView_ClearSelection
      else FoldersView_SelectFolders (m_navigationHistory s ! nat (backIndex s)))"

text \<open>
  What the statements about concrete runs show of a result: the error, or the
  navigation index, the history, whether the forward button is enabled, and the calls
  made on the widgets.
\<close>

definition navSummary ::
  "error + CAssetBrowser \<Rightarrow> error + int \<times> string list list \<times> bool \<times> widget_call list" where
  "navSummary r =
     (case r of
        Inl e \<Rightarrow> Inl e
      | Inr s \<Rightarrow> Inr (m_navigationIndex s, m_navigationHistory s, forwardButtonEnabled s, widgetCalls s))"

text \<open>
  The task that \<open>OnImport\<close> hands to \<open>AsyncFinalize\<close>, and the test for that call among
  the calls made.
\<close>

definition importTask :: "import_env \<Rightarrow> background_task" where
  "importTask env =
     DropHandler_Import (chosenFiles env)
       (if length (viewSelectedFolders env) = 1 then hd (viewSelectedFolders env) else [])"

definition isAsyncFinalize :: "import_effect \<Rightarrow> bool" where
  "isAsyncFinalize e = (case e of AsyncFinalize t f \<Rightarrow> True | _ \<Rightarrow> False)"

section \<open>Example inputs\<close>

text \<open>Concrete rows, answers and views, on which the theorems are run.\<close>

definition folderRow :: "nat QModelIndex" where
  "folderRow = \<lparr>isValid = True, typeCheckRole = eAssetModelRow_Folder, typeCheckOk = True,
      sortRoleData = 7, internalPointerRole = 100\<rparr>"

definition assetRow :: "nat QModelIndex" where
  "assetRow = \<lparr>isValid = True, typeCheckRole = eAssetModelRow_Asset, typeCheckOk = True,
      sortRoleData = 3, internalPointerRole = 50\<rparr>"

definition approving :: ui where
  "approving = \<lparr>HasAnyReverseDependencies = (\<lambda>as. 7 \<in> set as), dialogExecute = True,
     SQuestion = Yes, baseEdit = True\<rparr>"

definition declining :: ui where
  "declining = \<lparr>HasAnyReverseDependencies = (\<lambda>as. 7 \<in> set as), dialogExecute = False,
     SQuestion = No, baseEdit = True\<rparr>"

definition assetIndex :: "nat QModelIndex" where
  "assetIndex = \<lparr>isValid = True, typeCheckRole = eAssetModelRow_Asset, typeCheckOk = True,
      sortRoleData = 3, internalPointerRole = 7\<rparr>"

text \<open>
  Views of twenty rows: \<open>twentyRows\<close> shows every row, in \<open>scrolledRows\<close> only row 0 is
  visible. \<open>hugeRow\<close> is a row of 65536 by 65536 pixels, and \<open>largestModel\<close> has as many
  rows as \<open>rowCount()\<close> can return.
\<close>

definition someRow :: row_view where
  "someRow = \<lparr>index_isValid = True, row_pAsset = 5, row_HasThumbnail = True,
     visualRect_y = 10, visualRect_width = 4, visualRect_height = 4\<rparr>"

definition twentyModel :: QAbstractItemModel where
  "twentyModel = \<lparr>rowCount = 20, model_index = (\<lambda>i. someRow)\<rparr>"

definition twentyRows :: CThumbnailsInternalView where
  "twentyRows = \<lparr>view_model = Some twentyModel, rect_height = 100\<rparr>"

definition scrolledRows :: CThumbnailsInternalView where
  "scrolledRows =
     \<lparr>view_model = Some \<lparr>rowCount = 20, model_index = (\<lambda>i. someRow\<lparr>visualRect_y := 10 - 40 * i\<rparr>)\<rparr>,
      rect_height = 100\<rparr>"

definition hugeRow :: row_view where
  "hugeRow = someRow\<lparr>visualRect_width := 65536, visualRect_height := 65536\<rparr>"

definition largestModel :: CThumbnailsInternalView where
  "largestModel = \<lparr>view_model = Some \<lparr>rowCount = 2147483647, model_index = (\<lambda>i. someRow)\<rparr>,
     rect_height = 100\<rparr>"

text \<open>
  Browsers, layouts, runs and import requests. \<open>tour\<close> visits three folders, goes back
  twice, forward, to a fourth folder (which cuts the history), and back to the start.
  In \<open>silentForward\<close> the folders view reports nothing while the forward button
  navigates.
\<close>

definition visited :: CAssetBrowser where
  "visited = CAssetBrowser_init\<lparr>m_navigationHistory := [[''Assets''], [''Assets/Objects'']],
      m_navigationIndex := 0\<rparr>"


definition savedWidgets :: widget_states where
  "savedWidgets =
     \<lparr>baseLayout = [(''viewMode'', QInt 7), (''dockable'', QBool True)],
      mainViewSplitterSaved = QOther 0 True ''AAAA/wAAAAEAAAAC'',
      foldersSplitterSaved = QOther 0 True ''AAAA/wAAAAEAAAAD'',
      previewWidgetVisible = False,
      filterPanelState = [(''search'', QOther 0 True ''tree'')],
      detailsViewState = [],
      thumbnailViewState = [],
      foldersViewState = []\<rparr>"

definition detailsRecursive :: CAssetBrowser where
  "detailsRecursive = CAssetBrowser_init\<lparr>m_viewMode := Details, m_recursiveView := True,
      m_recursiveSearch := False\<rparr>"

definition panelQuiet :: filter_panel_after where
  "panelQuiet = \<lparr>searchBoxIsEmptyAfter = False, hasActiveFiltersAfter = False,
      signalOnFiltered = True\<rparr>"

definition tour :: "browser_event list" where
  "tour =
     [FolderSelectionChanged [''Assets''],
      FolderSelectionChanged [''Assets/Objects''],
      FolderSelectionChanged [''Assets/Textures'', ''Assets/Sounds''],
      NavBack [[''Assets/Objects'']],
      NavBack [[''Assets'']],
      MouseRelease ForwardButton [[''Assets/Objects'']],
      FolderSelectionChanged [''Assets/Levels''],
      MouseRelease ForwardButton [[''Assets'']],
      NavBack [[''Assets/Objects'']],
      NavBack [],
      NavBack []]"

definition silentForward :: "browser_event list" where
  "silentForward =
     [FolderSelectionChanged [''Assets''],
      FolderSelectionChanged [''Assets/Objects''],
      NavBack [[''Assets'']],
      MouseRelease ForwardButton [],
      MouseRelease ForwardButton []]"

definition noImporters :: import_env where
  "noImporters = \<lparr>assetImporters = 0, recentImportPath = ''C:/art'', chosenFiles = [''C:/art/rock.fbx''],
     CanImportAny = (\<lambda>files. True), viewSelectedFolders = [''Assets/Objects''],
     GetPathWithoutFilename = (\<lambda>path. ''C:/art/'')\<rparr>"

definition unknownFile :: import_env where
  "unknownFile = \<lparr>assetImporters = 2, recentImportPath = [], chosenFiles = [''C:/art/notes.xyz''],
     CanImportAny = (\<lambda>files. False), viewSelectedFolders = [''Assets/Objects''],
     GetPathWithoutFilename = (\<lambda>path. ''C:/art/'')\<rparr>"

definition knownFile :: import_env where
  "knownFile = \<lparr>assetImporters = 2, recentImportPath = ''C:/art'', chosenFiles = [''C:/art/rock.fbx''],
     CanImportAny = (\<lambda>files. True), viewSelectedFolders = [''Assets/Objects''],
     GetPathWithoutFilename = (\<lambda>path. ''C:/art/'')\<rparr>"

section \<open>Sorting: folders before assets\<close>

lemma lessThan_types_differ:
  "typeCheckRole l \<noteq> typeCheckRole r \<Longrightarrow>
   SortFilterProxyModel_lessThan base l r \<longleftrightarrow> typeCheckRole l = eAssetModelRow_Folder"
  by (simp add: SortFilterProxyModel_lessThan_def)

lemma row_types_differ: "eAssetModelRow_Folder \<noteq> eAssetModelRow_Asset"
  by simp

text \<open>
  Claim C1. When one of the two compared rows is a folder and the other is an asset,
  \<open>lessThan\<close> returns true exactly when the left row is the folder, whatever the data
  of the sort role and the base comparison are. Hence, in every ascending order of
  rows, a folder at position \<open>i\<close> and an asset at position \<open>j\<close> satisfy \<open>i < j\<close>: all
  folders come before all assets.
\<close>

theorem lessThan_folder_before_asset:
  fixes l r :: "'v QModelIndex" and rows :: "'v QModelIndex list"
  shows "((typeCheckRole l = eAssetModelRow_Folder \<and> typeCheckRole r = eAssetModelRow_Asset)
          \<or> (typeCheckRole l = eAssetModelRow_Asset \<and> typeCheckRole r = eAssetModelRow_Folder)
         \<longrightarrow> (SortFilterProxyModel_lessThan base l r \<longleftrightarrow> typeCheckRole l = eAssetModelRow_Folder))
       \<and> (ascending (SortFilterProxyModel_lessThan base) rows
             \<and> i < length rows \<and> j < length rows
             \<and> typeCheckRole (rows ! i) = eAssetModelRow_Folder
             \<and> typeCheckRole (rows ! j) = eAssetModelRow_Asset
            \<longrightarrow> i < j)"
proof (intro conjI impI)
  assume "(typeCheckRole l = eAssetModelRow_Folder \<and> typeCheckRole r = eAssetModelRow_Asset)
          \<or> (typeCheckRole l = eAssetModelRow_Asset \<and> typeCheckRole r = eAssetModelRow_Folder)"
  then have "typeCheckRole l \<noteq> typeCheckRole r"
    using row_types_differ by auto
  then show "SortFilterProxyModel_lessThan base l r \<longleftrightarrow> typeCheckRole l = eAssetModelRow_Folder"
    by (rule lessThan_types_differ)
next
  assume a: "ascending (SortFilterProxyModel_lessThan base) rows
             \<and> i < length rows \<and> j < length rows
             \<and> typeCheckRole (rows ! i) = eAssetModelRow_Folder
             \<and> typeCheckRole (rows ! j) = eAssetModelRow_Asset"
  then have ne: "typeCheckRole (rows ! i) \<noteq> typeCheckRole (rows ! j)"
    using row_types_differ by simp
  have lt: "SortFilterProxyModel_lessThan base (rows ! i) (rows ! j)"
    using lessThan_types_differ [OF ne] a by simp
  show "i < j"
  proof (rule ccontr)
    assume "\<not> i < j"
    moreover have "i \<noteq> j" using ne by auto
    ultimately have "j < i" by simp
    with a have "\<not> SortFilterProxyModel_lessThan base (rows ! i) (rows ! j)"
      unfolding ascending_def by (simp add: sorted_wrt_iff_nth_less)
    with lt show False by contradiction
  qed
qed

text \<open>
  The theorem at a folder row and an asset row whose sort data would order them the
  other way round.
\<close>

theorem lessThan_folder_before_asset_witness:
  "typeCheckRole assetRow = eAssetModelRow_Asset
   \<and> typeCheckRole folderRow = eAssetModelRow_Folder
   \<and> \<not> SortFilterProxyModel_lessThan (\<lambda>a b. sortRoleData a < sortRoleData b) assetRow folderRow
   \<and> SortFilterProxyModel_lessThan (\<lambda>a b. sortRoleData a < sortRoleData b) folderRow assetRow
   \<and> ascending (SortFilterProxyModel_lessThan (\<lambda>a b. sortRoleData a < sortRoleData b))
        [folderRow, assetRow]
   \<and> (0::nat) < 1"
  using lessThan_folder_before_asset
    [of assetRow folderRow "\<lambda>a b. sortRoleData a < sortRoleData b" "[folderRow, assetRow]" 0 1]
    lessThan_folder_before_asset
    [of folderRow assetRow "\<lambda>a b. sortRoleData a < sortRoleData b" "[folderRow, assetRow]" 0 1]
  by (simp add: folderRow_def assetRow_def ascending_def SortFilterProxyModel_lessThan_def)

section \<open>Deleting asks for confirmation\<close>

text \<open>
  Claim C2. For every non-empty list of assets, \<open>OnDelete\<close> first shows a confirmation
  dialog: the reverse-dependencies dialog when the asset manager reports reverse
  dependencies, the plain question otherwise. \<open>DeleteAssetsWithFiles\<close> is called, on
  the given assets and after the dialog, if and only if the user confirms; when the
  user declines, the dialog is all that \<open>OnDelete\<close> does.
\<close>

theorem OnDelete_asks_before_deleting:
  "assets \<noteq> [] \<longrightarrow>
     isConfirmationDialog (deleteDialog u assets)
   \<and> OnDelete u assets =
       deleteDialog u assets # (if deleteConfirmed u assets then [DeleteAssetsWithFiles assets] else [])
   \<and> ((\<exists>as. DeleteAssetsWithFiles as \<in> set (OnDelete u assets)) \<longleftrightarrow> deleteConfirmed u assets)
   \<and> (\<not> deleteConfirmed u assets \<longrightarrow> OnDelete u assets = [deleteDialog u assets])"
  by (auto simp: OnDelete_def deleteDialog_def deleteConfirmed_def isConfirmationDialog_def Let_def)

text \<open>The theorem at a confirmed and at a declined deletion.\<close>

theorem OnDelete_asks_before_deleting_witness:
  "OnDelete approving [7, 8] =
     [ReverseDependenciesDialog ''Delete Assets'' [7, 8], DeleteAssetsWithFiles [7, 8]]
   \<and> OnDelete declining [8] = [QuestionDialog ''Delete Assets'']
   \<and> \<not> deleteConfirmed declining [8]"
  using OnDelete_asks_before_deleting [of "[7, 8]" approving]
    OnDelete_asks_before_deleting [of "[8]" declining]
  by (simp add: approving_def declining_def deleteDialog_def deleteConfirmed_def)

section \<open>Renaming asks for confirmation\<close>

lemma UserConfirmsRenaming_eq:
  "UserConfirmsRenaming u a = (\<not> renameDeclined u a, [renameDialog u a])"
  by (simp add: UserConfirmsRenaming_def renameDialog_def renameDeclined_def Let_def)

text \<open>
  Claim C3. When \<open>edit\<close> is called on a valid index of an asset row with a trigger the
  view has enabled and a non-null asset (an in-place rename attempt), in the details
  view and in the thumbnails view alike, the first thing done is the dialog of
  \<open>UserConfirmsRenaming\<close>: the reverse-dependencies dialog when the asset has reverse
  dependencies, the plain question otherwise. If the user declines, the override
  returns true and the base class's \<open>edit\<close>, which would open the editor, is not
  called.
\<close>

theorem rename_needs_confirmation:
  fixes index :: "'v QModelIndex"
  assumes "(editTriggers AND trigger) \<noteq> 0" and "isValid index" and "IsAsset index"
    and "ToAsset index \<noteq> 0"
  shows "UserConfirmsRenaming u (ToAsset index)
           = (\<not> renameDeclined u (ToAsset index), [renameDialog u (ToAsset index)])
       \<and> (\<exists>rest. snd (QAssetDetailsView_edit u editTriggers index trigger pEvent)
                    = renameDialog u (ToAsset index) # rest)
       \<and> (\<exists>rest. snd (CThumbnailsInternalView_edit u editTriggers index trigger pEvent)
                    = renameDialog u (ToAsset index) # rest)
       \<and> (renameDeclined u (ToAsset index) \<longrightarrow>
            fst (QAssetDetailsView_edit u editTriggers index trigger pEvent) = True
          \<and> BaseEdit \<notin> set (snd (QAssetDetailsView_edit u editTriggers index trigger pEvent))
          \<and> fst (CThumbnailsInternalView_edit u editTriggers index trigger pEvent) = True
          \<and> BaseEdit \<notin> set (snd (CThumbnailsInternalView_edit u editTriggers index trigger pEvent)))"
proof -
  let ?a = "ToAsset index"
  have d: "QAssetDetailsView_edit u editTriggers index trigger pEvent =
      (if renameDeclined u ?a
       then (True, renameDialog u ?a # (if pEvent then [EventAccept] else []))
       else (baseEdit u, [renameDialog u ?a, BaseEdit]))"
    using assms by (simp add: QAssetDetailsView_edit_def UserConfirmsRenaming_eq Let_def)
  have t: "CThumbnailsInternalView_edit u editTriggers index trigger pEvent =
      (if renameDeclined u ?a
       then (True, renameDialog u ?a # (if pEvent then [EventAccept] else []))
       else (baseEdit u, [renameDialog u ?a, BaseEdit]))"
    using assms by (simp add: CThumbnailsInternalView_edit_def UserConfirmsRenaming_eq Let_def)
  have nb: "renameDialog u ?a \<noteq> BaseEdit"
    by (simp add: renameDialog_def)
  show ?thesis
    unfolding d t using nb by (auto simp: UserConfirmsRenaming_eq)
qed

text \<open>The theorem at a declined rename in both views, beside a confirmed one.\<close>

theorem rename_needs_confirmation_witness:
  "((6::int) AND 2) \<noteq> 0 \<and> isValid assetIndex \<and> IsAsset assetIndex \<and> ToAsset assetIndex \<noteq> 0
   \<and> renameDeclined declining (ToAsset assetIndex)
   \<and> QAssetDetailsView_edit declining 6 assetIndex 2 True
       = (True, [ReverseDependenciesDialog ''Rename Asset'' [7], EventAccept])
   \<and> CThumbnailsInternalView_edit declining 6 assetIndex 2 False
       = (True, [ReverseDependenciesDialog ''Rename Asset'' [7]])
   \<and> QAssetDetailsView_edit approving 6 assetIndex 2 True
       = (True, [ReverseDependenciesDialog ''Rename Asset'' [7], BaseEdit])"
  using rename_needs_confirmation [of 6 2 assetIndex declining True]
  by (simp add: assetIndex_def declining_def approving_def IsAsset_def ToAsset_def
      renameDeclined_def renameDialog_def QAssetDetailsView_edit_def
      CThumbnailsInternalView_edit_def UserConfirmsRenaming_def)

section \<open>The layout is saved and restored\<close>

lemma value_insert:
  "QVariantMap_value (QVariantMap_insert k v m) k' = (if k' = k then v else QVariantMap_value m k')"
  by (simp add: QVariantMap_value_def QVariantMap_insert_def update_conv')

lemma GetLayout_values:
  "QVariantMap_value (GetLayout p w s) ''mainViewSplitter'' = mainViewSplitterSaved w"
  "QVariantMap_value (GetLayout p w s) ''foldersSplitter'' = foldersSplitterSaved w"
  "QVariantMap_value (GetLayout p w s) ''viewMode'' = QInt (m_viewMode s)"
  "QVariantMap_value (GetLayout p w s) ''recursiveView'' = QBool (m_recursiveView s)"
  "QVariantMap_value (GetLayout p w s) ''recursiveSearch'' = QBool (m_recursiveSearch s)"
  "QVariantMap_value (GetLayout p w s) ''filters'' = QMap (filterPanelState w)"
  by (simp_all add: GetLayout_def Let_def value_insert)

lemma keeps_widgetCall: "keeps (widgetCall c)"
  by (simp add: keeps_def widgetCall_def)

lemma keeps_UpdateModels: "keeps UpdateModels"
  by (simp add: keeps_def UpdateModels_def Let_def)

lemma keeps_UpdateNavigation: "keeps (UpdateNavigation c)"
  by (simp add: keeps_def UpdateNavigation_def Let_def)

lemma keeps_whenValid: "keeps f \<Longrightarrow> keeps (whenValid v f)"
  by (simp add: keeps_def whenValid_def)

lemma keeps_whenValidMap: "keeps f \<Longrightarrow> keeps (whenValidMap v f)"
  by (simp add: keeps_def whenValidMap_def)

lemma keeps_FilterPanel_SetState_on: "keeps (FilterPanel_SetState_on after m)"
  using keeps_UpdateModels
  by (simp add: keeps_def FilterPanel_SetState_on_def Let_def widgetCall_def)

lemma keeps_foldersViewVisible: "keeps (\<lambda>s. s\<lparr>foldersViewVisible := b\<rparr>)"
  by (simp add: keeps_def)

lemma keepsD:
  "keeps f \<Longrightarrow> m_viewMode (f s) = m_viewMode s"
  "keeps f \<Longrightarrow> m_recursiveView (f s) = m_recursiveView s"
  "keeps f \<Longrightarrow> m_recursiveSearch (f s) = m_recursiveSearch s"
  by (simp_all add: keeps_def)

lemma SetViewMode_sets: "m_viewMode (SetViewMode v s) = v"
  by (simp add: SetViewMode_def Let_def)

lemma SetRecursiveView_sets:
  "m_recursiveView (SetRecursiveView b s) = b"
  "m_viewMode (SetRecursiveView b s) = m_viewMode s"
  using keeps_UpdateModels by (auto simp: SetRecursiveView_def keeps_def)

lemma SetRecursiveSearch_sets:
  "m_recursiveSearch (SetRecursiveSearch b s) = b"
  "m_recursiveView (SetRecursiveSearch b s) = m_recursiveView s"
  "m_viewMode (SetRecursiveSearch b s) = m_viewMode s"
  using keeps_UpdateModels by (auto simp: SetRecursiveSearch_def keeps_def)

lemma SetLayout_restores:
  assumes "QVariantMap_value state ''viewMode'' = QInt vm"
    and "QVariantMap_value state ''recursiveView'' = QBool rv"
    and "QVariantMap_value state ''recursiveSearch'' = QBool rs"
  shows "m_viewMode (SetLayout p after state s) = vm"
    and "m_recursiveView (SetLayout p after state s) = rv"
    and "m_recursiveSearch (SetLayout p after state s) = rs"
proof -
  note k = keeps_UpdateNavigation keeps_whenValidMap keeps_whenValid keeps_widgetCall
    keeps_FilterPanel_SetState_on keeps_foldersViewVisible
  have r: "\<And>f s. keeps f \<Longrightarrow> m_viewMode (if p then f s else s) = m_viewMode s"
    "\<And>f s. keeps f \<Longrightarrow> m_recursiveView (if p then f s else s) = m_recursiveView s"
    "\<And>f s. keeps f \<Longrightarrow> m_recursiveSearch (if p then f s else s) = m_recursiveSearch s"
    by (simp_all add: keepsD)
  show "m_viewMode (SetLayout p after state s) = vm"
    unfolding SetLayout_def Let_def assms
    by (simp add: keepsD k r)
      (simp add: whenValid_def SetViewMode_sets SetRecursiveView_sets SetRecursiveSearch_sets)
  show "m_recursiveView (SetLayout p after state s) = rv"
    unfolding SetLayout_def Let_def assms
    by (simp add: keepsD k r)
      (simp add: whenValid_def SetViewMode_sets SetRecursiveView_sets SetRecursiveSearch_sets)
  show "m_recursiveSearch (SetLayout p after state s) = rs"
    unfolding SetLayout_def Let_def assms
    by (simp add: keepsD k r)
      (simp add: whenValid_def SetViewMode_sets SetRecursiveView_sets SetRecursiveSearch_sets)
qed

text \<open>
  Claim C4. The map that \<open>GetLayout\<close> returns holds the states of the two splitters
  under \<open>mainViewSplitter\<close> and \<open>foldersSplitter\<close>, the view mode under \<open>viewMode\<close>,
  the two flags under \<open>recursiveView\<close> and \<open>recursiveSearch\<close>, and the state of the filter
  panel under \<open>filters\<close>. Whatever browser \<open>s'\<close> the map is given to, and whatever the
  filter panel does when it takes its state back, \<open>SetLayout\<close> leaves that browser with
  the view mode and the two flags of the browser \<open>s\<close> that was saved.
\<close>

theorem layout_round_trip:
  "QVariantMap_value (GetLayout p w s) ''mainViewSplitter'' = mainViewSplitterSaved w
 \<and> QVariantMap_value (GetLayout p w s) ''foldersSplitter'' = foldersSplitterSaved w
 \<and> QVariantMap_value (GetLayout p w s) ''viewMode'' = QInt (m_viewMode s)
 \<and> QVariantMap_value (GetLayout p w s) ''recursiveView'' = QBool (m_recursiveView s)
 \<and> QVariantMap_value (GetLayout p w s) ''recursiveSearch'' = QBool (m_recursiveSearch s)
 \<and> QVariantMap_value (GetLayout p w s) ''filters'' = QMap (filterPanelState w)
 \<and> m_viewMode (SetLayout p after (GetLayout p w s) s') = m_viewMode s
 \<and> m_recursiveView (SetLayout p after (GetLayout p w s) s') = m_recursiveView s
 \<and> m_recursiveSearch (SetLayout p after (GetLayout p w s) s') = m_recursiveSearch s"
  using SetLayout_restores [OF GetLayout_values(3,4,5)]
  by (simp add: GetLayout_values)

text \<open>
  The theorem at a browser in the details mode with the recursive view on and the
  recursive search off, saved and given to a new browser; the base class's map already
  has a \<open>viewMode\<close>, which \<open>GetLayout\<close> replaces.
\<close>

theorem layout_round_trip_witness:
  "QVariantMap_value (GetLayout False savedWidgets detailsRecursive) ''viewMode'' = QInt 0
 \<and> m_viewMode (SetLayout False panelQuiet (GetLayout False savedWidgets detailsRecursive)
       CAssetBrowser_init) = Details
 \<and> m_recursiveView (SetLayout False panelQuiet (GetLayout False savedWidgets detailsRecursive)
       CAssetBrowser_init)
 \<and> \<not> m_recursiveSearch (SetLayout False panelQuiet (GetLayout False savedWidgets detailsRecursive)
       CAssetBrowser_init)"
  using layout_round_trip [of False savedWidgets detailsRecursive panelQuiet CAssetBrowser_init]
  by (simp add: detailsRecursive_def Details_def)

section \<open>The folder filter model follows the flags\<close>























section \<open>Navigation\<close>

text \<open>
  Claim C6. After \<open>UpdateNavigation\<close> the back button is enabled if and only if the
  history is not empty and the index is greater than \<open>-1\<close>, and the forward button is
  enabled if and only if the history is not empty and the index is less than its length
  minus one. Called with \<open>clearHistory\<close> true it empties the history, sets the index to
  \<open>-1\<close> and disables both buttons; called with false it keeps history and index.
\<close>

theorem UpdateNavigation_buttons:
  "(backButtonEnabled (UpdateNavigation c s) \<longleftrightarrow>
      m_navigationHistory (UpdateNavigation c s) \<noteq> []
      \<and> m_navigationIndex (UpdateNavigation c s) > - 1)
 \<and> (forwardButtonEnabled (UpdateNavigation c s) \<longleftrightarrow>
      m_navigationHistory (UpdateNavigation c s) \<noteq> []
      \<and> m_navigationIndex (UpdateNavigation c s)
          < int (length (m_navigationHistory (UpdateNavigation c s))) - 1)
 \<and> m_navigationHistory (UpdateNavigation True s) = []
 \<and> m_navigationIndex (UpdateNavigation True s) = - 1
 \<and> \<not> backButtonEnabled (UpdateNavigation True s)
 \<and> \<not> forwardButtonEnabled (UpdateNavigation True s)
 \<and> m_navigationHistory (UpdateNavigation False s) = m_navigationHistory s
 \<and> m_navigationIndex (UpdateNavigation False s) = m_navigationIndex s"
  by (simp add: UpdateNavigation_def Let_def)

text \<open>
  The theorem at a browser with two entries that stands on the first.
\<close>

theorem UpdateNavigation_buttons_witness:
  "backButtonEnabled (UpdateNavigation False visited)
 \<and> forwardButtonEnabled (UpdateNavigation False visited)
 \<and> m_navigationHistory (UpdateNavigation True visited) = []
 \<and> \<not> backButtonEnabled (UpdateNavigation True visited)"
  using UpdateNavigation_buttons [of False visited] UpdateNavigation_buttons [of True visited]
  by (simp add: visited_def CAssetBrowser_init_def)

subsection \<open>A selection change pushes, or only refreshes the buttons\<close>

lemma showSelectedFolders_nav:
  assumes "fs \<noteq> []"
  shows "\<exists>s1. showSelectedFolders fs s = Inr s1
      \<and> m_navigationHistory s1 = m_navigationHistory s
      \<and> m_navigationIndex s1 = m_navigationIndex s
      \<and> m_dontPushNavHistory s1 = m_dontPushNavHistory s
      \<and> widgetCalls s1 = widgetCalls s"
  using assms
  by (cases fs) (simp_all add: showSelectedFolders_def Let_def and_then_def QList_first_def)

lemma pushNavHistory_push:
  assumes "\<not> m_dontPushNavHistory s" and "- 1 \<le> m_navigationIndex s"
  shows "pushNavHistory fs s =
     Inr (s\<lparr>m_navigationHistory := take (nat (m_navigationIndex s + 1)) (m_navigationHistory s) @ [fs],
            m_navigationIndex := m_navigationIndex s + 1\<rparr>)"
  using assms
  by (simp add: pushNavHistory_def and_then_def QVector_resize_def)

lemma pushNavHistory_skip:
  assumes "m_dontPushNavHistory s"
  shows "pushNavHistory fs s = Inr s"
  using assms by (simp add: pushNavHistory_def)

lemma OnFolderSelectionChanged_push:
  assumes "\<not> m_dontPushNavHistory s" and "fs \<noteq> []" and "- 1 \<le> m_navigationIndex s"
  shows "\<exists>s'. OnFolderSelectionChanged fs s = Inr s'
      \<and> m_navigationHistory s' = take (nat (m_navigationIndex s + 1)) (m_navigationHistory s) @ [fs]
      \<and> m_navigationIndex s' = m_navigationIndex s + 1
      \<and> \<not> m_dontPushNavHistory s'
      \<and> widgetCalls s' = widgetCalls s
      \<and> forwardButtonEnabled s' = canGoForward s'"
proof -
  from showSelectedFolders_nav [OF assms(2), of s] obtain s1 where
    s1: "showSelectedFolders fs s = Inr s1"
      "m_navigationHistory s1 = m_navigationHistory s"
      "m_navigationIndex s1 = m_navigationIndex s"
      "m_dontPushNavHistory s1 = m_dontPushNavHistory s"
      "widgetCalls s1 = widgetCalls s"
    by blast
  let ?s2 = "s1\<lparr>acceptedFolders := fs\<rparr>"
  have p: "pushNavHistory fs ?s2 =
     Inr (?s2\<lparr>m_navigationHistory := take (nat (m_navigationIndex s + 1)) (m_navigationHistory s) @ [fs],
            m_navigationIndex := m_navigationIndex s + 1\<rparr>)"
    using pushNavHistory_push [of ?s2 fs] assms s1 by simp
  show ?thesis
    unfolding OnFolderSelectionChanged_def s1(1) and_then_def
    using s1 assms(1)
    by (simp add: p UpdateNavigation_def Let_def canGoForward_def)
qed

lemma OnFolderSelectionChanged_skip:
  assumes "m_dontPushNavHistory s" and "fs \<noteq> []"
  shows "\<exists>s'. OnFolderSelectionChanged fs s = Inr s'
      \<and> m_navigationHistory s' = m_navigationHistory s
      \<and> m_navigationIndex s' = m_navigationIndex s
      \<and> m_dontPushNavHistory s'
      \<and> widgetCalls s' = widgetCalls s
      \<and> forwardButtonEnabled s' = canGoForward s'"
proof -
  from showSelectedFolders_nav [OF assms(2), of s] obtain s1 where
    s1: "showSelectedFolders fs s = Inr s1"
      "m_navigationHistory s1 = m_navigationHistory s"
      "m_navigationIndex s1 = m_navigationIndex s"
      "m_dontPushNavHistory s1 = m_dontPushNavHistory s"
      "widgetCalls s1 = widgetCalls s"
    by blast
  let ?s2 = "s1\<lparr>acceptedFolders := fs\<rparr>"
  have p: "pushNavHistory fs ?s2 = Inr ?s2"
    using pushNavHistory_skip [of ?s2 fs] assms s1 by simp
  show ?thesis
    unfolding OnFolderSelectionChanged_def s1(1) and_then_def
    using s1 assms(1)
    by (simp add: p UpdateNavigation_def Let_def canGoForward_def)
qed

lemma signalSelectionChanged_skip:
  assumes "m_dontPushNavHistory s" and "[] \<notin> set em"
  shows "\<exists>s'. signalSelectionChanged em s = Inr s'
      \<and> m_navigationHistory s' = m_navigationHistory s
      \<and> m_navigationIndex s' = m_navigationIndex s
      \<and> m_dontPushNavHistory s'
      \<and> widgetCalls s' = widgetCalls s
      \<and> forwardButtonEnabled s' = (if em = [] then forwardButtonEnabled s else canGoForward s)"
  using assms
proof (induction em arbitrary: s)
  case Nil
  then show ?case by simp
next
  case (Cons fs em)
  from Cons.prems have fs: "fs \<noteq> []" and em: "[] \<notin> set em"
    by auto
  from OnFolderSelectionChanged_skip [OF Cons.prems(1) fs] obtain s1 where
    s1: "OnFolderSelectionChanged fs s = Inr s1"
      "m_navigationHistory s1 = m_navigationHistory s"
      "m_navigationIndex s1 = m_navigationIndex s"
      "m_dontPushNavHistory s1"
      "widgetCalls s1 = widgetCalls s"
      "forwardButtonEnabled s1 = canGoForward s1"
    by blast
  from Cons.IH [OF s1(4) em] obtain s' where
    s': "signalSelectionChanged em s1 = Inr s'"
      "m_navigationHistory s' = m_navigationHistory s1"
      "m_navigationIndex s' = m_navigationIndex s1"
      "m_dontPushNavHistory s'"
      "widgetCalls s' = widgetCalls s1"
      "forwardButtonEnabled s' = (if em = [] then forwardButtonEnabled s1 else canGoForward s1)"
    by blast
  have c: "canGoForward s1 = canGoForward s"
    using s1 by (simp add: canGoForward_def)
  show ?case
    using s1 s' c by (simp add: and_then_def)
qed

lemma foldersViewCall_skip:
  assumes "m_dontPushNavHistory s" and "[] \<notin> set em"
  shows "\<exists>s'. foldersViewCall c em s = Inr s'
      \<and> m_navigationHistory s' = m_navigationHistory s
      \<and> m_navigationIndex s' = m_navigationIndex s
      \<and> m_dontPushNavHistory s'
      \<and> widgetCalls s' = widgetCalls s @ [c]
      \<and> forwardButtonEnabled s' = (if em = [] then forwardButtonEnabled s else canGoForward s)"
proof -
  let ?s = "s\<lparr>widgetCalls := widgetCalls s @ [c]\<rparr>"
  have d: "m_dontPushNavHistory ?s"
    using assms(1) by simp
  have c: "canGoForward ?s = canGoForward s"
    by (simp add: canGoForward_def)
  from signalSelectionChanged_skip [OF d assms(2)] obtain s' where
    s': "signalSelectionChanged em ?s = Inr s'"
      "m_navigationHistory s' = m_navigationHistory ?s"
      "m_navigationIndex s' = m_navigationIndex ?s"
      "m_dontPushNavHistory s'"
      "widgetCalls s' = widgetCalls ?s"
      "forwardButtonEnabled s' = (if em = [] then forwardButtonEnabled ?s else canGoForward ?s)"
    by blast
  have "foldersViewCall c em s = Inr s'"
    using s'(1) by (simp add: foldersViewCall_def)
  moreover have "forwardButtonEnabled s' = (if em = [] then forwardButtonEnabled s else canGoForward s)"
    using s'(6) c by simp
  ultimately show ?thesis
    using s'(2-5) by simp
qed

subsection \<open>Back and forward\<close>

lemma nav_select:
  assumes "m_dontPushNavHistory t" and "[] \<notin> set em"
    and "- 1 \<le> m_navigationIndex t"
    and "m_navigationIndex t < int (length (m_navigationHistory t))"
  shows "\<exists>s'. selectEntry em t = Inr s'
      \<and> m_navigationHistory s' = m_navigationHistory t
      \<and> m_navigationIndex s' = m_navigationIndex t
      \<and> \<not> m_dontPushNavHistory s'
      \<and> widgetCalls s' = widgetCalls t @
            [if m_navigationIndex t = - 1 then FoldersView_ClearSelection
             else FoldersView_SelectFolders (m_navigationHistory t ! nat (m_navigationIndex t))]
      \<and> forwardButtonEnabled s' = (if em = [] then forwardButtonEnabled t else canGoForward t)"
proof (cases "m_navigationIndex t = - 1")
  case True
  from foldersViewCall_skip [OF assms(1,2), of FoldersView_ClearSelection] obtain s3 where
    "foldersViewCall FoldersView_ClearSelection em t = Inr s3"
    "m_navigationHistory s3 = m_navigationHistory t"
    "m_navigationIndex s3 = m_navigationIndex t"
    "widgetCalls s3 = widgetCalls t @ [FoldersView_ClearSelection]"
    "forwardButtonEnabled s3 = (if em = [] then forwardButtonEnabled t else canGoForward t)"
    by blast
  with True show ?thesis
    by (simp add: selectEntry_def and_then_def)
next
  case False
  let ?c = "FoldersView_SelectFolders (m_navigationHistory t ! nat (m_navigationIndex t))"
  have at: "QVector_at (m_navigationHistory t) (m_navigationIndex t)
      = Inr (m_navigationHistory t ! nat (m_navigationIndex t))"
    using assms(3,4) False by (simp add: QVector_at_def)
  from foldersViewCall_skip [OF assms(1,2), of ?c] obtain s3 where
    "foldersViewCall ?c em t = Inr s3"
    "m_navigationHistory s3 = m_navigationHistory t"
    "m_navigationIndex s3 = m_navigationIndex t"
    "widgetCalls s3 = widgetCalls t @ [?c]"
    "forwardButtonEnabled s3 = (if em = [] then forwardButtonEnabled t else canGoForward t)"
    by blast
  with False at show ?thesis
    by (simp add: selectEntry_def and_then_def)
qed

lemma OnNavBack_selectEntry:
  "OnNavBack em s = selectEntry em (s\<lparr>m_dontPushNavHistory := True, m_navigationIndex := backIndex s\<rparr>)"
proof (cases "m_navigationIndex s \<ge> 0")
  case True
  then show ?thesis
    unfolding OnNavBack_def Let_def selectEntry_def backIndex_def by simp
next
  case False
  have b: "s\<lparr>m_dontPushNavHistory := True, m_navigationIndex := backIndex s\<rparr>
      = s\<lparr>m_dontPushNavHistory := True\<rparr>"
    using False by (simp add: backIndex_def)
  show ?thesis
    unfolding b OnNavBack_def Let_def selectEntry_def using False by simp
qed

lemma OnNavForward_selectEntry:
  assumes "- 1 \<le> m_navigationIndex s"
  shows "OnNavForward em s =
     selectEntry em (s\<lparr>m_dontPushNavHistory := True, m_navigationIndex := m_navigationIndex s + 1\<rparr>)"
  using assms unfolding OnNavForward_def Let_def selectEntry_def
  by simp

lemma OnNavBack_result:
  assumes "- 1 \<le> m_navigationIndex s"
    and "m_navigationIndex s \<le> int (length (m_navigationHistory s))"
    and "[] \<notin> set em"
  shows "\<exists>s'. OnNavBack em s = Inr s'
      \<and> m_navigationHistory s' = m_navigationHistory s
      \<and> m_navigationIndex s' = backIndex s
      \<and> \<not> m_dontPushNavHistory s'
      \<and> widgetCalls s' = widgetCalls s @ [backCall s]
      \<and> forwardButtonEnabled s' =
          (if em = [] then forwardButtonEnabled s
           else m_navigationHistory s \<noteq> [] \<and> backIndex s < int (length (m_navigationHistory s)) - 1)"
proof -
  let ?t = "s\<lparr>m_dontPushNavHistory := True, m_navigationIndex := backIndex s\<rparr>"
  have t: "m_dontPushNavHistory ?t" "- 1 \<le> m_navigationIndex ?t"
    "m_navigationIndex ?t < int (length (m_navigationHistory ?t))"
    using assms(1,2) by (simp_all add: backIndex_def)
  from nav_select [OF t(1) assms(3) t(2,3)] obtain s' where
    s': "selectEntry em ?t = Inr s'"
      "m_navigationHistory s' = m_navigationHistory ?t"
      "m_navigationIndex s' = m_navigationIndex ?t"
      "\<not> m_dontPushNavHistory s'"
      "widgetCalls s' = widgetCalls ?t @
            [if m_navigationIndex ?t = - 1 then FoldersView_ClearSelection
             else FoldersView_SelectFolders (m_navigationHistory ?t ! nat (m_navigationIndex ?t))]"
      "forwardButtonEnabled s' = (if em = [] then forwardButtonEnabled ?t else canGoForward ?t)"
    by blast
  have "OnNavBack em s = Inr s'"
    using s'(1) by (simp add: OnNavBack_selectEntry)
  moreover have "widgetCalls s' = widgetCalls s @ [backCall s]"
    using s'(5) by (simp add: backCall_def)
  moreover have "forwardButtonEnabled s' =
          (if em = [] then forwardButtonEnabled s
           else m_navigationHistory s \<noteq> [] \<and> backIndex s < int (length (m_navigationHistory s)) - 1)"
    using s'(6) by (simp add: canGoForward_def)
  ultimately show ?thesis
    using s'(2,3,4) by simp
qed

lemma OnNavForward_result:
  assumes "- 1 \<le> m_navigationIndex s"
    and "m_navigationIndex s < int (length (m_navigationHistory s)) - 1"
    and "[] \<notin> set em"
  shows "\<exists>s'. OnNavForward em s = Inr s'
      \<and> m_navigationHistory s' = m_navigationHistory s
      \<and> m_navigationIndex s' = m_navigationIndex s + 1
      \<and> \<not> m_dontPushNavHistory s'
      \<and> forwardButtonEnabled s' =
          (if em = [] then forwardButtonEnabled s
           else m_navigationIndex s + 1 < int (length (m_navigationHistory s)) - 1)"
proof -
  let ?t = "s\<lparr>m_dontPushNavHistory := True, m_navigationIndex := m_navigationIndex s + 1\<rparr>"
  have t: "m_dontPushNavHistory ?t" "- 1 \<le> m_navigationIndex ?t"
    "m_navigationIndex ?t < int (length (m_navigationHistory ?t))"
    using assms(1,2) by simp_all
  have ne: "m_navigationHistory s \<noteq> []"
    using assms(1,2) by auto
  from nav_select [OF t(1) assms(3) t(2,3)] obtain s' where
    s': "selectEntry em ?t = Inr s'"
      "m_navigationHistory s' = m_navigationHistory ?t"
      "m_navigationIndex s' = m_navigationIndex ?t"
      "\<not> m_dontPushNavHistory s'"
      "forwardButtonEnabled s' = (if em = [] then forwardButtonEnabled ?t else canGoForward ?t)"
    by blast
  have "OnNavForward em s = Inr s'"
    using s'(1) assms(1) by (simp add: OnNavForward_selectEntry)
  moreover have "forwardButtonEnabled s' =
          (if em = [] then forwardButtonEnabled s
           else m_navigationIndex s + 1 < int (length (m_navigationHistory s)) - 1)"
    using s'(5) ne by (simp add: canGoForward_def)
  ultimately show ?thesis
    using s'(2,3,4) by simp
qed

subsection \<open>The index stays in range while the folders view reports\<close>

lemma keeps_navD:
  "keeps_nav f \<Longrightarrow> m_navigationHistory (f s) = m_navigationHistory s"
  "keeps_nav f \<Longrightarrow> m_navigationIndex (f s) = m_navigationIndex s"
  "keeps_nav f \<Longrightarrow> m_dontPushNavHistory (f s) = m_dontPushNavHistory s"
  "keeps_nav f \<Longrightarrow> forwardButtonEnabled (f s) = forwardButtonEnabled s"
  by (simp_all add: keeps_nav_def)

lemma keeps_nav_sync: "keeps_nav f \<Longrightarrow> nav_sync (f s) = nav_sync s"
  by (simp add: keeps_nav_def nav_sync_def nav_inv_def)

lemma keeps_nav_widgetCall: "keeps_nav (widgetCall c)"
  by (simp add: keeps_nav_def widgetCall_def)

lemma keeps_nav_UpdateModels: "keeps_nav UpdateModels"
  by (simp add: keeps_nav_def UpdateModels_def Let_def)

lemma keeps_nav_SetViewMode: "keeps_nav (SetViewMode v)"
  by (simp add: keeps_nav_def SetViewMode_def Let_def)

lemma keeps_nav_SetRecursiveView: "keeps_nav (SetRecursiveView v)"
  using keeps_nav_UpdateModels by (simp add: keeps_nav_def SetRecursiveView_def)

lemma keeps_nav_SetRecursiveSearch: "keeps_nav (SetRecursiveSearch v)"
  using keeps_nav_UpdateModels by (simp add: keeps_nav_def SetRecursiveSearch_def)

lemma keeps_nav_whenValid: "keeps_nav f \<Longrightarrow> keeps_nav (whenValid v f)"
  by (simp add: keeps_nav_def whenValid_def)

lemma keeps_nav_whenValidMap: "keeps_nav f \<Longrightarrow> keeps_nav (whenValidMap v f)"
  by (simp add: keeps_nav_def whenValidMap_def)

lemma keeps_nav_FilterPanel_SetState_on: "keeps_nav (FilterPanel_SetState_on after m)"
  using keeps_nav_UpdateModels
  by (simp add: keeps_nav_def FilterPanel_SetState_on_def Let_def widgetCall_def)

lemma keeps_nav_foldersViewVisible: "keeps_nav (\<lambda>s. s\<lparr>foldersViewVisible := b\<rparr>)"
  by (simp add: keeps_nav_def)

lemma nav_sync_UpdateNavigation_True:
  "nav_sync (UpdateNavigation True s) = (\<not> m_dontPushNavHistory s)"
  by (simp add: nav_sync_def nav_inv_def UpdateNavigation_def Let_def)

lemma SetLayout_dontPush:
  "m_dontPushNavHistory (SetLayout p after state s) = m_dontPushNavHistory s"
proof -
  note k = keeps_nav_whenValidMap keeps_nav_whenValid keeps_nav_widgetCall
    keeps_nav_FilterPanel_SetState_on keeps_nav_foldersViewVisible keeps_nav_SetViewMode
    keeps_nav_SetRecursiveView keeps_nav_SetRecursiveSearch
  have r: "\<And>f s. keeps_nav f \<Longrightarrow>
      m_dontPushNavHistory (if p then f s else s) = m_dontPushNavHistory s"
    by (simp add: keeps_navD)
  have u: "\<And>s. m_dontPushNavHistory (UpdateNavigation True s) = m_dontPushNavHistory s"
    by (simp add: UpdateNavigation_def Let_def)
  show ?thesis
    unfolding SetLayout_def Let_def
    by (simp add: u keeps_navD k r)
qed

lemma nav_sync_SetLayout:
  assumes "nav_sync s"
  shows "nav_sync (SetLayout p after state s)"
proof -
  obtain x where x: "SetLayout p after state s = UpdateNavigation True x"
    unfolding SetLayout_def Let_def by blast
  then have "m_dontPushNavHistory x = m_dontPushNavHistory (SetLayout p after state s)"
    by (simp add: UpdateNavigation_def Let_def)
  then have "\<not> m_dontPushNavHistory x"
    using assms by (simp add: SetLayout_dontPush nav_sync_def)
  then show ?thesis
    unfolding x by (simp add: nav_sync_UpdateNavigation_True)
qed

lemma nav_sync_OnFolderSelectionChanged:
  assumes "nav_sync s" and "fs \<noteq> []"
  shows "\<exists>s'. OnFolderSelectionChanged fs s = Inr s' \<and> nav_sync s'"
proof -
  from assms(1) have a: "\<not> m_dontPushNavHistory s" "- 1 \<le> m_navigationIndex s"
    "m_navigationIndex s \<le> int (length (m_navigationHistory s)) - 1"
    by (simp_all add: nav_sync_def nav_inv_def)
  from OnFolderSelectionChanged_push [OF a(1) assms(2) a(2)] obtain s' where
    s': "OnFolderSelectionChanged fs s = Inr s'"
      "m_navigationHistory s' = take (nat (m_navigationIndex s + 1)) (m_navigationHistory s) @ [fs]"
      "m_navigationIndex s' = m_navigationIndex s + 1"
      "\<not> m_dontPushNavHistory s'"
      "forwardButtonEnabled s' = canGoForward s'"
    by blast
  have "nav_sync s'"
    using s'(2-5) a(2,3) by (simp add: nav_sync_def nav_inv_def canGoForward_def)
  with s'(1) show ?thesis by blast
qed

lemma nav_sync_OnNavBack:
  assumes "nav_sync s" and "[] \<notin> set em"
  shows "\<exists>s'. OnNavBack em s = Inr s' \<and> nav_sync s'"
proof -
  from assms(1) have a: "- 1 \<le> m_navigationIndex s"
    "m_navigationIndex s \<le> int (length (m_navigationHistory s)) - 1"
    "forwardButtonEnabled s \<longrightarrow> m_navigationIndex s < int (length (m_navigationHistory s)) - 1"
    by (simp_all add: nav_sync_def nav_inv_def)
  then have le: "m_navigationIndex s \<le> int (length (m_navigationHistory s))"
    by simp
  from OnNavBack_result [OF a(1) le assms(2)] obtain s' where
    s': "OnNavBack em s = Inr s'"
      "m_navigationHistory s' = m_navigationHistory s"
      "m_navigationIndex s' = backIndex s"
      "\<not> m_dontPushNavHistory s'"
      "forwardButtonEnabled s' =
          (if em = [] then forwardButtonEnabled s
           else m_navigationHistory s \<noteq> [] \<and> backIndex s < int (length (m_navigationHistory s)) - 1)"
    by blast
  have "nav_sync s'"
    using s'(2-5) a by (auto simp: nav_sync_def nav_inv_def backIndex_def split: if_splits)
  with s'(1) show ?thesis by blast
qed

lemma nav_sync_OnNavForward:
  assumes "nav_sync s" and "forwardButtonEnabled s" and "em \<noteq> []" and "[] \<notin> set em"
  shows "\<exists>s'. OnNavForward em s = Inr s' \<and> nav_sync s'"
proof -
  from assms(1,2) have a: "- 1 \<le> m_navigationIndex s"
    "m_navigationIndex s < int (length (m_navigationHistory s)) - 1"
    by (simp_all add: nav_sync_def nav_inv_def)
  from OnNavForward_result [OF a assms(4)] obtain s' where
    s': "OnNavForward em s = Inr s'"
      "m_navigationHistory s' = m_navigationHistory s"
      "m_navigationIndex s' = m_navigationIndex s + 1"
      "\<not> m_dontPushNavHistory s'"
      "forwardButtonEnabled s' =
          (if em = [] then forwardButtonEnabled s
           else m_navigationIndex s + 1 < int (length (m_navigationHistory s)) - 1)"
    by blast
  have "nav_sync s'"
    using s'(2-5) a assms(3) by (simp add: nav_sync_def nav_inv_def)
  with s'(1) show ?thesis by blast
qed

lemma nav_sync_step:
  assumes "nav_sync s" and "selections_named e" and "forward_reported e"
  shows "\<exists>s'. browser_step s e = Inr s' \<and> nav_sync s'"
proof (cases e)
  case (FolderSelectionChanged fs)
  with assms nav_sync_OnFolderSelectionChanged [of s fs] show ?thesis by simp
next
  case (NavBack em)
  with assms nav_sync_OnNavBack [of s em] show ?thesis by simp
next
  case (MouseRelease b em)
  show ?thesis
  proof (cases b)
    case BackButton
    with MouseRelease assms nav_sync_OnNavBack [of s em] show ?thesis
      by (simp add: mouseReleaseEvent_def)
  next
    case ForwardButton
    with MouseRelease assms nav_sync_OnNavForward [of s em] show ?thesis
      by (simp add: mouseReleaseEvent_def)
  next
    case OtherButton
    with MouseRelease assms show ?thesis
      by (simp add: mouseReleaseEvent_def)
  qed
next
  case (FilterPanelEdited a b)
  with assms show ?thesis by (simp add: nav_sync_def nav_inv_def)
next
  case OnFiltered
  with assms show ?thesis by (simp add: keeps_nav_sync [OF keeps_nav_UpdateModels])
next
  case (CallSetViewMode v)
  with assms show ?thesis by (simp add: keeps_nav_sync [OF keeps_nav_SetViewMode])
next
  case (CallSetRecursiveView v)
  with assms show ?thesis by (simp add: keeps_nav_sync [OF keeps_nav_SetRecursiveView])
next
  case (CallSetRecursiveSearch v)
  with assms show ?thesis by (simp add: keeps_nav_sync [OF keeps_nav_SetRecursiveSearch])
next
  case (CallSetLayout p after state)
  with assms show ?thesis by (simp add: nav_sync_SetLayout)
qed

lemma nav_sync_run:
  assumes "nav_sync s" and "\<forall>e \<in> set events. selections_named e \<and> forward_reported e"
  shows "\<exists>s'. browser_run s events = Inr s' \<and> nav_sync s'"
  using assms
proof (induction events arbitrary: s)
  case Nil
  then show ?case by simp
next
  case (Cons e events)
  from Cons.prems have e: "selections_named e" "forward_reported e"
    and rest: "\<forall>e \<in> set events. selections_named e \<and> forward_reported e"
    by simp_all
  from nav_sync_step [OF Cons.prems(1) e] obtain s1 where
    s1: "browser_step s e = Inr s1" "nav_sync s1"
    by blast
  from Cons.IH [OF s1(2) rest] s1(1) show ?case
    by (simp add: and_then_def)
qed

lemma nav_sync_init: "nav_sync CAssetBrowser_init"
  by (simp add: nav_sync_def nav_inv_def CAssetBrowser_init_def)

text \<open>
  The constructor ends with two of the calls that \<open>browser_run\<close> applies, so the
  browser it returns is reached from \<open>CAssetBrowser_init\<close>.
\<close>

lemma CAssetBrowser_ctor_run:
  "CAssetBrowser_ctor selectedFolders =
     browser_run CAssetBrowser_init [CallSetViewMode Thumbnails, FolderSelectionChanged selectedFolders]"
proof -
  have "UpdateNavigation False CAssetBrowser_init = CAssetBrowser_init"
    by (simp add: UpdateNavigation_def CAssetBrowser_init_def Let_def)
  then show ?thesis
    by (simp add: CAssetBrowser_ctor_def and_then_def split: sum.splits)
qed

lemmas run_simps =
  CAssetBrowser_init_def OnFolderSelectionChanged_def showSelectedFolders_def pushNavHistory_def
  and_then_def QList_first_def QVector_resize_def QVector_at_def UpdateNavigation_def Let_def
  OnNavBack_def OnNavForward_def mouseReleaseEvent_def foldersViewCall_def

text \<open>
  Where the folders view reports a selection during every \<open>OnNavForward\<close>, the forward
  button follows the index, no call fails, and \<open>-1 \<le> index \<le> length of the history - 1\<close>
  holds after every run from the constructed state. A folder selection change that
  pushes (\<open>m_dontPushNavHistory\<close> off, on any browser \<open>t\<close> whose index is at least
  \<open>-1\<close>) cuts the history after the current index, appends the new selection and adds
  one to the index.
\<close>

lemma forward_reported_in_range:
  assumes "\<forall>e \<in> set events. selections_named e \<and> forward_reported e"
  shows "(\<exists>s. browser_run CAssetBrowser_init events = Inr s
            \<and> - 1 \<le> m_navigationIndex s
            \<and> m_navigationIndex s \<le> int (length (m_navigationHistory s)) - 1)
       \<and> (\<not> m_dontPushNavHistory t \<and> selectedFolders \<noteq> [] \<and> - 1 \<le> m_navigationIndex t \<longrightarrow>
            (\<exists>t'. OnFolderSelectionChanged selectedFolders t = Inr t'
               \<and> m_navigationHistory t'
                   = take (nat (m_navigationIndex t + 1)) (m_navigationHistory t) @ [selectedFolders]
               \<and> m_navigationIndex t' = m_navigationIndex t + 1))"
proof
  from nav_sync_run [OF nav_sync_init assms] obtain s where
    "browser_run CAssetBrowser_init events = Inr s" "nav_sync s"
    by blast
  then show "\<exists>s. browser_run CAssetBrowser_init events = Inr s
            \<and> - 1 \<le> m_navigationIndex s
            \<and> m_navigationIndex s \<le> int (length (m_navigationHistory s)) - 1"
    by (auto simp: nav_sync_def nav_inv_def)
next
  show "\<not> m_dontPushNavHistory t \<and> selectedFolders \<noteq> [] \<and> - 1 \<le> m_navigationIndex t \<longrightarrow>
            (\<exists>t'. OnFolderSelectionChanged selectedFolders t = Inr t'
               \<and> m_navigationHistory t'
                   = take (nat (m_navigationIndex t + 1)) (m_navigationHistory t) @ [selectedFolders]
               \<and> m_navigationIndex t' = m_navigationIndex t + 1)"
    using OnFolderSelectionChanged_push [of t selectedFolders] by blast
qed

text \<open>
  At \<open>tour\<close>: at its end the index is \<open>-1\<close> under three entries; after its seventh call
  the fourth folder has replaced the third entry. The push, at a browser with two
  entries that stands on the first: the second entry is replaced.
\<close>

lemma tour_in_range:
  "list_all selections_named tour \<and> list_all forward_reported tour
 \<and> navSummary (browser_run CAssetBrowser_init tour) =
     Inr (- 1, [[''Assets''], [''Assets/Objects''], [''Assets/Levels'']], True,
          [FoldersView_SelectFolders [''Assets/Objects''], FoldersView_SelectFolders [''Assets''],
           FoldersView_SelectFolders [''Assets/Objects''], FoldersView_SelectFolders [''Assets/Objects''],
           FoldersView_SelectFolders [''Assets''], FoldersView_ClearSelection])
 \<and> navSummary (browser_run CAssetBrowser_init (take 7 tour)) =
     Inr (2, [[''Assets''], [''Assets/Objects''], [''Assets/Levels'']], False,
          [FoldersView_SelectFolders [''Assets/Objects''], FoldersView_SelectFolders [''Assets''],
           FoldersView_SelectFolders [''Assets/Objects'']])
 \<and> \<not> m_dontPushNavHistory visited \<and> [''Assets/Levels''] \<noteq> [] \<and> - 1 \<le> m_navigationIndex visited
 \<and> navSummary (OnFolderSelectionChanged [''Assets/Levels''] visited) =
     Inr (1, [[''Assets''], [''Assets/Levels'']], False, [])"
proof -
  have ok: "\<forall>e \<in> set tour. selections_named e \<and> forward_reported e"
    by (simp add: tour_def)
  from forward_reported_in_range [OF ok, of visited "[''Assets/Levels'']"] show ?thesis
    by (simp add: tour_def visited_def run_simps navSummary_def)
qed

text \<open>
  Claim C5 says that from the constructed state the index stays between \<open>-1\<close> and the
  length of the history minus one, under folder selection changes, \<open>OnNavBack\<close> calls
  and \<open>OnNavForward\<close> calls made while the forward button is enabled. The code breaks
  it at \<open>silentForward\<close>. \<open>OnNavBack\<close> tests the index before it decrements it, and
  \<open>UpdateNavigation\<close> computes whether a later entry exists; \<open>OnNavForward\<close> increments
  the index without a test, and the forward button is refreshed only when the folders
  view reports a selection. In \<open>silentForward\<close> two folders are visited and
  \<open>OnNavBack\<close> is called, which leaves the index at 0 of two entries with the forward
  button enabled. The forward button of the mouse is then released twice, and the
  folders view reports nothing during \<open>SelectFolders\<close>. After the first release the
  index is 1, on the last entry, and the forward button is still enabled; the second
  release makes the index 2 and reads \<open>m_navigationHistory[2]\<close>, outside the two
  entries.
\<close>

theorem OnNavForward_past_history:
  "list_all selections_named silentForward
 \<and> navSummary (browser_run CAssetBrowser_init (take 3 silentForward)) =
     Inr (0, [[''Assets''], [''Assets/Objects'']], True, [FoldersView_SelectFolders [''Assets'']])
 \<and> navSummary (browser_run CAssetBrowser_init (take 4 silentForward)) =
     Inr (1, [[''Assets''], [''Assets/Objects'']], True,
          [FoldersView_SelectFolders [''Assets''], FoldersView_SelectFolders [''Assets/Objects'']])
 \<and> browser_run CAssetBrowser_init silentForward = Inl IndexOutOfRange"
  by (simp add: silentForward_def run_simps navSummary_def)

text \<open>
  Claim C7. On a browser whose index is at least \<open>-1\<close> and at most the length of the
  history, when every selection the folders view reports names a folder, \<open>OnNavBack\<close>
  returns a browser whose index is one less when it was at least 0 (and the same
  otherwise) and whose history is unchanged; the one call it makes on the folders view
  is \<open>ClearSelection\<close> when the new index is \<open>-1\<close> and otherwise \<open>SelectFolders\<close> with
  the folders stored at the new index.
\<close>

theorem OnNavBack_steps_back:
  assumes "- 1 \<le> m_navigationIndex s"
    and "m_navigationIndex s \<le> int (length (m_navigationHistory s))"
    and "[] \<notin> set emitted"
  shows "\<exists>s'. OnNavBack emitted s = Inr s'
      \<and> m_navigationIndex s'
          = (if m_navigationIndex s \<ge> 0 then m_navigationIndex s - 1 else m_navigationIndex s)
      \<and> m_navigationHistory s' = m_navigationHistory s
      \<and> widgetCalls s' = widgetCalls s @
          [if m_navigationIndex s' = - 1 then FoldersView_ClearSelection
           else FoldersView_SelectFolders (m_navigationHistory s ! nat (m_navigationIndex s'))]"
proof -
  from OnNavBack_result [OF assms] obtain s' where
    "OnNavBack emitted s = Inr s'"
    "m_navigationHistory s' = m_navigationHistory s"
    "m_navigationIndex s' = backIndex s"
    "widgetCalls s' = widgetCalls s @ [backCall s]"
    by blast
  then show ?thesis
    by (simp add: backIndex_def backCall_def)
qed

text \<open>
  The theorem at a browser with two entries that stands on the first: the index
  becomes \<open>-1\<close> and the selection is cleared.
\<close>

theorem OnNavBack_steps_back_witness:
  "- 1 \<le> m_navigationIndex visited
 \<and> m_navigationIndex visited \<le> int (length (m_navigationHistory visited))
 \<and> [] \<notin> set [[''Assets'']]
 \<and> navSummary (OnNavBack [[''Assets'']] visited) =
     Inr (- 1, [[''Assets''], [''Assets/Objects'']], True, [FoldersView_ClearSelection])"
proof -
  have h: "- 1 \<le> m_navigationIndex visited"
    "m_navigationIndex visited \<le> int (length (m_navigationHistory visited))"
    "[] \<notin> set [[''Assets'']]"
    by (simp_all add: visited_def CAssetBrowser_init_def)
  from OnNavBack_steps_back [OF h] h show ?thesis
    by (simp add: visited_def run_simps navSummary_def)
qed

section \<open>Batches of the thumbnails view\<close>

text \<open>Inside the range of a C \<open>int\<close> nothing wraps.\<close>

lemma int32_id: "- (2 ^ 31) \<le> x \<Longrightarrow> x < 2 ^ 31 \<Longrightarrow> int32 x = x"
  by (simp add: int32_def)

lemma int32_range: "- (2 ^ 31) \<le> int32 x \<and> int32 x < 2 ^ 31"
  by (simp add: int32_def)

text \<open>
  The loop returns whenever it does not start at the least \<open>int\<close>, with the rows from
  \<open>i\<close> down to \<open>firstBatchRow\<close>; from the least \<open>int\<close> it does not return.
\<close>

lemma touchRows_range:
  assumes "- (2 ^ 31) < firstBatchRow" and "i < 2 ^ 31"
  shows "touchRows v m firstBatchRow i rows assets =
           Some (rows @ rev [firstBatchRow..i],
                 assets @ concat (map (touchRow v m) (rev [firstBatchRow..i])))"
  using assms(2)
proof (induction "nat (i + 1 - firstBatchRow)" arbitrary: i rows assets)
  case 0
  then have "i < firstBatchRow" by simp
  then show ?case
    by (subst touchRows.simps) simp
next
  case (Suc d)
  then have ge: "firstBatchRow \<le> i" by linarith
  with assms(1) Suc.prems have w: "int32 (i - 1) = i - 1"
    by (intro int32_id) simp_all
  have d: "d = nat (i - 1 + 1 - firstBatchRow)"
    using Suc.hyps(2) by linarith
  have lt: "i - 1 < 2 ^ 31"
    using Suc.prems by simp
  have u: "[firstBatchRow..i] = [firstBatchRow..i - 1] @ [i]"
    using ge by (simp add: upto_rec2)
  show ?case
    by (subst touchRows.simps) (simp add: ge w Suc.hyps(1) [OF d lt] u)
qed

lemma touchRows_least_int:
  assumes "touchRows v m firstBatchRow i rows assets = Some r"
  shows "\<not> (firstBatchRow = - (2 ^ 31) \<and> - (2 ^ 31) \<le> i)"
proof (rule touchRows.raw_induct
    [where P = "\<lambda>v m firstBatchRow i rows assets r. \<not> (firstBatchRow = - (2 ^ 31) \<and> - (2 ^ 31) \<le> i)",
     OF _ assms])
  fix f :: "CThumbnailsInternalView \<Rightarrow> QAbstractItemModel \<Rightarrow> int \<Rightarrow> int \<Rightarrow> int list \<Rightarrow> CAssetPtr list
     \<Rightarrow> (int list \<times> CAssetPtr list) option"
  fix v m and firstBatchRow i :: int and rows assets r
  assume ih: "\<And>v m firstBatchRow i rows assets r.
      f v m firstBatchRow i rows assets = Some r \<Longrightarrow>
      \<not> (firstBatchRow = - (2 ^ 31) \<and> - (2 ^ 31) \<le> i)"
    and eq: "(if firstBatchRow \<le> i
              then f v m firstBatchRow (int32 (i - 1)) (rows @ [i]) (assets @ touchRow v m i)
              else Some (rows, assets)) = Some r"
  show "\<not> (firstBatchRow = - (2 ^ 31) \<and> - (2 ^ 31) \<le> i)"
  proof
    assume a: "firstBatchRow = - (2 ^ 31) \<and> - (2 ^ 31) \<le> i"
    with eq have "f v m firstBatchRow (int32 (i - 1)) (rows @ [i]) (assets @ touchRow v m i) = Some r"
      by simp
    from ih [OF this] a int32_range [of "i - 1"] show False
      by simp
  qed
qed

text \<open>One call, where the sum \<open>firstBatchRow + batchSize\<close> stays in range.\<close>

lemma batch_result:
  assumes "view_model v = Some m" and "0 < rowCount m" and "rowCount m < 2 ^ 31"
    and "- (2 ^ 31) < first" and "first \<le> 2 ^ 31 - 9"
  shows "TouchVisibleAssetsBatched v first =
           Some \<lparr>examined = rev [first..min (rowCount m - 1) (first + 8)],
                 touched = concat (map (touchRow v m) (rev [first..min (rowCount m - 1) (first + 8)])),
                 scheduled = (if min (rowCount m - 1) (first + 8) < rowCount m - 1
                              then Some (min (rowCount m - 1) (first + 8) + 1) else None)\<rparr>"
proof -
  have a: "int32 (rowCount m - 1) = rowCount m - 1"
    using assms(2,3) by (intro int32_id) simp_all
  have b: "int32 (first + 8) = first + 8"
    using assms(4,5) by (intro int32_id) simp_all
  have l: "min (rowCount m - 1) (first + 8) < 2 ^ 31"
    using assms(3) by simp
  have c: "min (rowCount m - 1) (first + 8) < rowCount m - 1 \<Longrightarrow>
      int32 (min (rowCount m - 1) (first + 8) + 1) = min (rowCount m - 1) (first + 8) + 1"
    using assms(3,4) by (intro int32_id) simp_all
  show ?thesis
    using assms(1,2) c
    by (simp add: TouchVisibleAssetsBatched_def Let_def a b touchRows_range [OF assms(4) l])
qed

lemma batch_empty_model:
  assumes "view_model v = Some m" and "rowCount m = 0"
  shows "TouchVisibleAssetsBatched v first = Some \<lparr>examined = [], touched = [], scheduled = None\<rparr>"
  using assms by (simp add: TouchVisibleAssetsBatched_def)

text \<open>
  The chain: a call that posts no continuation ends it, and so does a continuation that
  finds the view destroyed.
\<close>

lemma chain_last:
  assumes "TouchVisibleAssetsBatched v first = Some b" and "scheduled b = None"
  shows "TouchVisibleAssets_from pView k v first = Some [b]"
  by (subst TouchVisibleAssets_from.simps) (simp add: assms)

lemma chain_next:
  assumes "TouchVisibleAssetsBatched v first = Some b" and "scheduled b = Some next"
    and "pView k = Some v'" and "TouchVisibleAssets_from pView (Suc k) v' next = Some bs"
  shows "TouchVisibleAssets_from pView k v first = Some (b # bs)"
  by (subst TouchVisibleAssets_from.simps) (simp add: assms)

lemma chain_destroyed:
  assumes "TouchVisibleAssetsBatched v first = Some b" and "pView k = None"
  shows "TouchVisibleAssets_from pView k v first = Some [b]"
  by (subst TouchVisibleAssets_from.simps) (simp add: assms split: option.splits)

text \<open>
  A chain that starts at 0 calls at multiples of 9 only, and the largest multiple of 9
  below \<open>2^31 - 2\<close> is \<open>2147483637\<close>: adding 8 to it stays in range.
\<close>

lemma multiple_of_nine_bound:
  "9 dvd (x::int) \<Longrightarrow> x \<le> 2 ^ 31 - 3 \<Longrightarrow> x \<le> 2 ^ 31 - 9"
proof (elim dvdE)
  fix k :: int
  assume "x \<le> 2 ^ 31 - 3" and "x = 9 * k"
  then have "9 * k \<le> 2147483645" by simp
  then have "9 * k \<le> 2147483639" by presburger
  with \<open>x = 9 * k\<close> show ?thesis by simp
qed

lemma chain_result:
  fixes n :: int
  assumes n: "0 < n" "n < 2 ^ 31 - 1"
    and alive: "\<forall>k. \<exists>v' m'. pView k = Some v' \<and> view_model v' = Some m' \<and> rowCount m' = n"
  shows "view_model v = Some m \<Longrightarrow> rowCount m = n \<Longrightarrow> 0 \<le> first \<Longrightarrow> first < n \<Longrightarrow> 9 dvd first \<Longrightarrow>
    \<exists>bs. TouchVisibleAssets_from pView k v first = Some bs
       \<and> set (concat (map examined bs)) = {first..n - 1}
       \<and> distinct (concat (map examined bs))
       \<and> (\<forall>j < length bs.
             examined (bs ! j) = rev [first + 9 * int j..min (n - 1) (first + 9 * int j + 8)]
           \<and> scheduled (bs ! j) = (if min (n - 1) (first + 9 * int j + 8) < n - 1
                                    then Some (min (n - 1) (first + 9 * int j + 8) + 1) else None))
       \<and> int (length bs) = (n - first + 8) div 9"
proof (induction "nat (n - first)" arbitrary: first k v m rule: less_induct)
  case less
  note m = less.prems(1,2)
  have f9: "first \<le> 2 ^ 31 - 9"
    using less.prems(4,5) n(2) by (intro multiple_of_nine_bound) simp_all
  have b: "TouchVisibleAssetsBatched v first =
      Some \<lparr>examined = rev [first..min (n - 1) (first + 8)],
            touched = concat (map (touchRow v m) (rev [first..min (n - 1) (first + 8)])),
            scheduled = (if min (n - 1) (first + 8) < n - 1
                         then Some (min (n - 1) (first + 8) + 1) else None)\<rparr>"
    using batch_result [OF m(1), of first] m(2) n less.prems(3) f9 by simp
  show ?case
  proof (cases "first + 8 < n - 1")
    case False
    then have l: "min (n - 1) (first + 8) = n - 1"
      by simp
    have c: "TouchVisibleAssets_from pView k v first =
        Some [\<lparr>examined = rev [first..n - 1],
               touched = concat (map (touchRow v m) (rev [first..n - 1])), scheduled = None\<rparr>]"
      using chain_last [OF b, of pView k] by (simp add: l)
    have d: "(n - first + 8) div 9 = 1"
      using False less.prems(4) by simp
    show ?thesis
      unfolding c using l d by simp
  next
    case True
    then have l: "min (n - 1) (first + 8) = first + 8"
      by simp
    from alive obtain v' m' where
      v': "pView k = Some v'" "view_model v' = Some m'" "rowCount m' = n"
      by blast
    have "nat (n - (first + 9)) < nat (n - first)"
      using True by simp
    moreover have "0 \<le> first + 9" "first + 9 < n" "9 dvd first + 9"
      using True less.prems(3,5) by simp_all
    ultimately obtain bs where bs:
      "TouchVisibleAssets_from pView (Suc k) v' (first + 9) = Some bs"
      "set (concat (map examined bs)) = {first + 9..n - 1}"
      "distinct (concat (map examined bs))"
      "\<forall>j < length bs.
         examined (bs ! j) = rev [first + 9 + 9 * int j..min (n - 1) (first + 9 + 9 * int j + 8)]
       \<and> scheduled (bs ! j) = (if min (n - 1) (first + 9 + 9 * int j + 8) < n - 1
                                then Some (min (n - 1) (first + 9 + 9 * int j + 8) + 1) else None)"
      "int (length bs) = (n - (first + 9) + 8) div 9"
      using less.hyps [OF _ v'(2,3), of "first + 9" "Suc k"] by blast
    define b0 where "b0 = \<lparr>examined = rev [first..first + 8],
        touched = concat (map (touchRow v m) (rev [first..first + 8])),
        scheduled = Some (first + 9)\<rparr>"
    have b': "TouchVisibleAssetsBatched v first = Some b0"
      using b True by (simp add: l b0_def)
    have s: "scheduled b0 = Some (first + 9)"
      by (simp add: b0_def)
    have c: "TouchVisibleAssets_from pView k v first = Some (b0 # bs)"
      by (rule chain_next [OF b' s v'(1) bs(1)])
    have e0: "examined b0 = rev [first..first + 8]"
      by (simp add: b0_def)
    have cover: "set (concat (map examined (b0 # bs))) = {first..n - 1}"
      using bs(2) True by (auto simp: e0)
    have dist: "distinct (concat (map examined (b0 # bs)))"
      using bs(2,3) by (auto simp: e0)
    have nth: "\<forall>j < length (b0 # bs).
         examined ((b0 # bs) ! j) = rev [first + 9 * int j..min (n - 1) (first + 9 * int j + 8)]
       \<and> scheduled ((b0 # bs) ! j) = (if min (n - 1) (first + 9 * int j + 8) < n - 1
                                then Some (min (n - 1) (first + 9 * int j + 8) + 1) else None)"
    proof (intro allI impI)
      fix j
      assume j: "j < length (b0 # bs)"
      show "examined ((b0 # bs) ! j) = rev [first + 9 * int j..min (n - 1) (first + 9 * int j + 8)]
       \<and> scheduled ((b0 # bs) ! j) = (if min (n - 1) (first + 9 * int j + 8) < n - 1
                                then Some (min (n - 1) (first + 9 * int j + 8) + 1) else None)"
      proof (cases j)
        case 0
        then show ?thesis
          using True by (simp add: e0 s l)
      next
        case (Suc i)
        with j have "i < length bs" by simp
        with bs(4) have
          "examined (bs ! i) = rev [first + 9 + 9 * int i..min (n - 1) (first + 9 + 9 * int i + 8)]
       \<and> scheduled (bs ! i) = (if min (n - 1) (first + 9 + 9 * int i + 8) < n - 1
                                then Some (min (n - 1) (first + 9 + 9 * int i + 8) + 1) else None)"
          by blast
        moreover have "first + 9 + 9 * int i = first + 9 * int (Suc i)"
          by simp
        ultimately show ?thesis
          unfolding Suc by (simp only: nth_Cons_Suc)
      qed
    qed
    have len: "int (length (b0 # bs)) = (n - first + 8) div 9"
      using bs(5) by simp
    show ?thesis
      using c cover dist nth len by blast
  qed
qed

lemmas batch_simps =
  TouchVisibleAssets_def TouchVisibleAssets_from.simps TouchVisibleAssetsBatched_def
  touchRows.simps touchRow_def int32_def Let_def

text \<open>
  Claim C10. Take a model of \<open>n\<close> rows, \<open>n\<close> below \<open>2^31 - 1\<close>, and let every
  continuation find the view alive with a model of \<open>n\<close> rows. Then the chain of
  \<open>TouchVisibleAssetsBatched\<close> calls that \<open>TouchVisibleAssets\<close> starts ends, and its calls
  visit every row number \<open>0 .. n - 1\<close> exactly once. Call number \<open>k\<close> visits the rows
  from \<open>9 * k\<close> to \<open>min (n - 1) (9 * k + 8)\<close> and, when rows remain after them, posts
  one continuation, which starts at the row after the last one visited. There are
  \<open>(n + 8) div 9\<close> calls (one call when the model is empty). Moreover every single call
  on the view that starts at a row \<open>first\<close> with \<open>-2^31 < first \<le> 2^31 - 9\<close> returns,
  visits the rows from \<open>first\<close> to \<open>min (n - 1) (first + 8)\<close>, and posts a continuation
  exactly when rows remain, at the next row, which is after \<open>first\<close> and within the
  model.

  A model of \<open>2^31 - 1\<close> rows, the most that \<open>rowCount()\<close> can return, is left out: its
  chain reaches row \<open>2147483646\<close>, where \<open>firstBatchRow + batchSize\<close> leaves the range of
  \<open>int\<close>, which C++ leaves undefined (see \<open>sum_wraps\<close> below for what wrapping gives).
\<close>

theorem TouchVisibleAssets_batches:
  assumes "view_model v = Some m" and "0 \<le> rowCount m" and "rowCount m < 2 ^ 31 - 1"
    and "\<forall>k. \<exists>v' m'. pView k = Some v' \<and> view_model v' = Some m' \<and> rowCount m' = rowCount m"
  shows "(\<exists>bs. TouchVisibleAssets pView v = Some bs
          \<and> distinct (concat (map examined bs))
          \<and> set (concat (map examined bs)) = {0..rowCount m - 1}
          \<and> (\<forall>k < length bs.
                examined (bs ! k) = rev [9 * int k..min (rowCount m - 1) (9 * int k + 8)]
              \<and> scheduled (bs ! k)
                  = (if min (rowCount m - 1) (9 * int k + 8) < rowCount m - 1
                     then Some (min (rowCount m - 1) (9 * int k + 8) + 1) else None))
          \<and> int (length bs) = (if rowCount m = 0 then 1 else (rowCount m + 8) div 9))
       \<and> (\<forall>first. 0 < rowCount m \<and> - (2 ^ 31) < first \<and> first \<le> 2 ^ 31 - 9 \<longrightarrow>
            (\<exists>b. TouchVisibleAssetsBatched v first = Some b
               \<and> examined b = rev [first..min (rowCount m - 1) (first + 8)]
               \<and> scheduled b
                   = (if min (rowCount m - 1) (first + 8) < rowCount m - 1
                      then Some (min (rowCount m - 1) (first + 8) + 1) else None)
               \<and> (\<forall>next. scheduled b = Some next \<longrightarrow> first < next \<and> next \<le> rowCount m - 1)))"
proof
  show "\<exists>bs. TouchVisibleAssets pView v = Some bs
          \<and> distinct (concat (map examined bs))
          \<and> set (concat (map examined bs)) = {0..rowCount m - 1}
          \<and> (\<forall>k < length bs.
                examined (bs ! k) = rev [9 * int k..min (rowCount m - 1) (9 * int k + 8)]
              \<and> scheduled (bs ! k)
                  = (if min (rowCount m - 1) (9 * int k + 8) < rowCount m - 1
                     then Some (min (rowCount m - 1) (9 * int k + 8) + 1) else None))
          \<and> int (length bs) = (if rowCount m = 0 then 1 else (rowCount m + 8) div 9)"
  proof (cases "rowCount m = 0")
    case True
    have "TouchVisibleAssets pView v = Some [\<lparr>examined = [], touched = [], scheduled = None\<rparr>]"
      unfolding TouchVisibleAssets_def
      by (rule chain_last [OF batch_empty_model [OF assms(1) True]]) simp
    then show ?thesis
      using True by simp
  next
    case False
    with assms(2) have pos: "0 < rowCount m"
      by simp
    from chain_result [OF pos assms(3,4,1) refl, of 0 0] pos
    obtain bs where bs:
      "TouchVisibleAssets_from pView 0 v 0 = Some bs"
      "set (concat (map examined bs)) = {0..rowCount m - 1}"
      "distinct (concat (map examined bs))"
      "\<forall>j < length bs.
          examined (bs ! j) = rev [0 + 9 * int j..min (rowCount m - 1) (0 + 9 * int j + 8)]
        \<and> scheduled (bs ! j) = (if min (rowCount m - 1) (0 + 9 * int j + 8) < rowCount m - 1
                                 then Some (min (rowCount m - 1) (0 + 9 * int j + 8) + 1) else None)"
      "int (length bs) = (rowCount m - 0 + 8) div 9"
      by auto
    from bs(4) have nth: "\<forall>k < length bs.
                examined (bs ! k) = rev [9 * int k..min (rowCount m - 1) (9 * int k + 8)]
              \<and> scheduled (bs ! k)
                  = (if min (rowCount m - 1) (9 * int k + 8) < rowCount m - 1
                     then Some (min (rowCount m - 1) (9 * int k + 8) + 1) else None)"
      by simp
    from bs(5) False have len: "int (length bs) = (if rowCount m = 0 then 1 else (rowCount m + 8) div 9)"
      by simp
    from bs(1) have "TouchVisibleAssets pView v = Some bs"
      by (simp add: TouchVisibleAssets_def)
    with bs(2,3) nth len show ?thesis
      by blast
  qed
next
  show "\<forall>first. 0 < rowCount m \<and> - (2 ^ 31) < first \<and> first \<le> 2 ^ 31 - 9 \<longrightarrow>
            (\<exists>b. TouchVisibleAssetsBatched v first = Some b
               \<and> examined b = rev [first..min (rowCount m - 1) (first + 8)]
               \<and> scheduled b
                   = (if min (rowCount m - 1) (first + 8) < rowCount m - 1
                      then Some (min (rowCount m - 1) (first + 8) + 1) else None)
               \<and> (\<forall>next. scheduled b = Some next \<longrightarrow> first < next \<and> next \<le> rowCount m - 1))"
  proof (intro allI impI)
    fix first :: int
    assume f: "0 < rowCount m \<and> - (2 ^ 31) < first \<and> first \<le> 2 ^ 31 - 9"
    have lt: "rowCount m < 2 ^ 31"
      using assms(3) by simp
    from f have "0 < rowCount m" "- (2 ^ 31) < first" "first \<le> 2 ^ 31 - 9"
      by simp_all
    note b = batch_result [OF assms(1) this(1) lt this(2,3)]
    show "\<exists>b. TouchVisibleAssetsBatched v first = Some b
               \<and> examined b = rev [first..min (rowCount m - 1) (first + 8)]
               \<and> scheduled b
                   = (if min (rowCount m - 1) (first + 8) < rowCount m - 1
                      then Some (min (rowCount m - 1) (first + 8) + 1) else None)
               \<and> (\<forall>next. scheduled b = Some next \<longrightarrow> first < next \<and> next \<le> rowCount m - 1)"
      unfolding b by (auto simp: min_def)
  qed
qed

text \<open>
  The theorem at a view of twenty rows that is scrolled after the first call: three
  calls, of nine, nine and two rows, and only the first one touches assets. A single
  call from row 12 visits the last eight rows.
\<close>

theorem TouchVisibleAssets_batches_witness:
  "view_model twentyRows = Some twentyModel
 \<and> 0 \<le> rowCount twentyModel \<and> rowCount twentyModel < 2 ^ 31 - 1
 \<and> (\<forall>k. \<exists>v' m'. (\<lambda>k. Some scrolledRows) k = Some v' \<and> view_model v' = Some m'
        \<and> rowCount m' = rowCount twentyModel)
 \<and> map_option (map examined) (TouchVisibleAssets (\<lambda>k. Some scrolledRows) twentyRows)
     = Some [[8, 7, 6, 5, 4, 3, 2, 1, 0], [17, 16, 15, 14, 13, 12, 11, 10, 9], [19, 18]]
 \<and> map_option (map scheduled) (TouchVisibleAssets (\<lambda>k. Some scrolledRows) twentyRows)
     = Some [Some 9, Some 18, None]
 \<and> map_option (map touched) (TouchVisibleAssets (\<lambda>k. Some scrolledRows) twentyRows)
     = Some [[5, 5, 5, 5, 5, 5, 5, 5, 5], [], []]
 \<and> 0 < rowCount twentyModel \<and> - (2 ^ 31) < (12::int) \<and> (12::int) \<le> 2 ^ 31 - 9
 \<and> TouchVisibleAssetsBatched twentyRows 12
     = Some \<lparr>examined = [19, 18, 17, 16, 15, 14, 13, 12], touched = [5, 5, 5, 5, 5, 5, 5, 5],
             scheduled = None\<rparr>"
proof -
  have h: "view_model twentyRows = Some twentyModel"
    "0 \<le> rowCount twentyModel" "rowCount twentyModel < 2 ^ 31 - 1"
    "\<forall>k. \<exists>v' m'. (\<lambda>k. Some scrolledRows) k = Some v' \<and> view_model v' = Some m'
        \<and> rowCount m' = rowCount twentyModel"
    by (simp_all add: twentyRows_def twentyModel_def scrolledRows_def)
  from TouchVisibleAssets_batches [OF h] h show ?thesis
    by (simp add: twentyRows_def twentyModel_def scrolledRows_def someRow_def batch_simps)
qed

text \<open>
  Outside the hypotheses. A call whose sum leaves the range of \<open>int\<close> visits no row and
  posts a continuation at a negative row; this is what happens at the last call on
  \<open>largestModel\<close>. A product of width and height that wraps to 0 keeps a visible asset
  from being touched. A continuation that finds the view destroyed ends the chain with
  rows unvisited. A call from the least \<open>int\<close> does not return.
\<close>

lemma sum_wraps:
  "TouchVisibleAssetsBatched twentyRows 2147483644
     = Some \<lparr>examined = [], touched = [], scheduled = Some (- 2147483643)\<rparr>
 \<and> TouchVisibleAssetsBatched largestModel 2147483646
     = Some \<lparr>examined = [], touched = [], scheduled = Some (- 2147483641)\<rparr>"
  by (simp add: twentyRows_def twentyModel_def largestModel_def batch_simps)

lemma product_wraps:
  "touchRow twentyRows \<lparr>rowCount = 1, model_index = (\<lambda>i. hugeRow)\<rparr> 0 = []
 \<and> touchRow twentyRows twentyModel 0 = [5]"
  by (simp add: twentyRows_def twentyModel_def hugeRow_def someRow_def batch_simps)

lemma destroyed_view_ends_chain:
  "map_option (map examined) (TouchVisibleAssets (\<lambda>k. if k = 0 then Some twentyRows else None) twentyRows)
     = Some [[8, 7, 6, 5, 4, 3, 2, 1, 0], [17, 16, 15, 14, 13, 12, 11, 10, 9]]"
  by (simp add: twentyRows_def twentyModel_def someRow_def batch_simps)

lemma loop_from_least_int:
  "TouchVisibleAssetsBatched twentyRows (- (2 ^ 31)) = None"
proof -
  have "touchRows twentyRows twentyModel (- (2 ^ 31)) (- 2147483640) [] [] = None"
    using touchRows_least_int [of twentyRows twentyModel "- (2 ^ 31)" "- 2147483640" "[]" "[]"]
    by (cases "touchRows twentyRows twentyModel (- (2 ^ 31)) (- 2147483640) [] []") simp_all
  then show ?thesis
    by (simp add: TouchVisibleAssetsBatched_def twentyRows_def twentyModel_def int32_def)
qed

section \<open>Importing never starts on a failure path\<close>

text \<open>
  Claim C9. With no importer registered \<open>OnImport\<close> shows the modal warning and does
  nothing else: the file dialog is not opened. When the chosen files cannot be
  imported, the last thing it does is a \<open>CryWarning\<close> whose message starts with
  \<open>Cannot import file\<close>, and nothing is handed to \<open>AsyncFinalize\<close>. When they can, the
  last thing it does is to hand the drop handler's import of the chosen files to
  \<open>AsyncFinalize\<close>, with \<open>MergeAssets\<close> as the step that follows the task. In every
  case that is the only import: \<open>AsyncFinalize\<close> is called once when importers exist,
  files were chosen and they can be imported, and never otherwise.
\<close>

theorem OnImport_failure_paths:
  "(assetImporters env = 0 \<longrightarrow> OnImport env = [SWarning ''No importers registered''])
 \<and> (assetImporters env \<noteq> 0 \<and> chosenFiles env \<noteq> [] \<and> \<not> CanImportAny env (chosenFiles env) \<longrightarrow>
      (\<exists>message. last (OnImport env) = CryWarning message
         \<and> take 18 message = ''Cannot import file'')
      \<and> filter isAsyncFinalize (OnImport env) = [])
 \<and> (assetImporters env \<noteq> 0 \<and> chosenFiles env \<noteq> [] \<and> CanImportAny env (chosenFiles env) \<longrightarrow>
      last (OnImport env) = AsyncFinalize (importTask env) MergeAssets)
 \<and> filter isAsyncFinalize (OnImport env) =
      (if assetImporters env \<noteq> 0 \<and> chosenFiles env \<noteq> [] \<and> CanImportAny env (chosenFiles env)
       then [AsyncFinalize (importTask env) MergeAssets] else [])"
  by (auto simp: OnImport_def Let_def isAsyncFinalize_def importTask_def)

text \<open>
  The theorem with no importer, with a file no importer takes, and with a file that
  can be imported.
\<close>

theorem OnImport_failure_paths_witness:
  "OnImport noImporters = [SWarning ''No importers registered'']
 \<and> OnImport unknownFile =
      [RunImportMultipleFiles None, SetProjectProperty ''RecentImportPath'' ''C:/art/'',
       CryWarning (''Cannot import file '' @ [CHR 0x27] @ ''C:/art/notes.xyz'' @ [CHR 0x27] @ ''.'')]
 \<and> OnImport knownFile =
      [RunImportMultipleFiles (Some ''C:/art''), SetProjectProperty ''RecentImportPath'' ''C:/art/'',
       AsyncFinalize (DropHandler_Import [''C:/art/rock.fbx''] ''Assets/Objects'') MergeAssets]"
  using OnImport_failure_paths [of noImporters] OnImport_failure_paths [of unknownFile]
    OnImport_failure_paths [of knownFile]
  by (simp add: noImporters_def unknownFile_def knownFile_def OnImport_def)

end
